theory Spec2Isabelle
  imports Main
begin

section \<open>Errors\<close>

text \<open>
  The exceptions of \<^verbatim>\<open>backup.py\<close> that the modelled functions can raise. An exception is
  the \<open>Inl\<close> side of a result; the message is kept where the source builds one from data
  of the model.
\<close>

datatype error =
    ConfigError string
  | RuntimeError string
  | ValueError
  | OverflowError
  | TypeError
  | StandardError string

section \<open>Calendar dates (\<^verbatim>\<open>datetime.date\<close>)\<close>

text \<open>
  A \<^verbatim>\<open>datetime.date\<close> carries a year, a month and a day of the proleptic Gregorian
  calendar. The functions below follow the standard library: the ordinal of a date
  (\<^verbatim>\<open>toordinal\<close>, 0001-01-01 is day 1), its inverse (\<^verbatim>\<open>fromordinal\<close>), the ISO weekday,
  the range check of the constructor and the subtraction of a number of days.
\<close>

record date =
  year :: int
  month :: int
  day :: int

definition MINYEAR :: int where "MINYEAR = 1"
definition MAXYEAR :: int where "MAXYEAR = 9999"
definition MAXORDINAL :: int where "MAXORDINAL = 3652059"

definition is_leap :: "int \<Rightarrow> bool" where
  "is_leap y = (y mod 4 = 0 \<and> (y mod 100 \<noteq> 0 \<or> y mod 400 = 0))"

definition days_before_year :: "int \<Rightarrow> int" where
  "days_before_year y = (y - 1) * 365 + (y - 1) div 4 - (y - 1) div 100 + (y - 1) div 400"

definition DAYS_IN_MONTH :: "int list" where
  "DAYS_IN_MONTH = [31, 28, 31, 30, 31, 30, 31, 31, 30, 31, 30, 31]"

definition DAYS_BEFORE_MONTH :: "int list" where
  "DAYS_BEFORE_MONTH = [0, 31, 59, 90, 120, 151, 181, 212, 243, 273, 304, 334]"

definition days_in_month :: "int \<Rightarrow> int \<Rightarrow> int" where
  "days_in_month y m =
     (if m = 2 \<and> is_leap y then 29 else DAYS_IN_MONTH ! nat (m - 1))"

definition days_before_month :: "int \<Rightarrow> int \<Rightarrow> int" where
  "days_before_month y m =
     DAYS_BEFORE_MONTH ! nat (m - 1) + (if m > 2 \<and> is_leap y then 1 else 0)"

definition valid_date :: "date \<Rightarrow> bool" where
  "valid_date d =
     (MINYEAR \<le> year d \<and> year d \<le> MAXYEAR \<and> 1 \<le> month d \<and> month d \<le> 12 \<and>
      1 \<le> day d \<and> day d \<le> days_in_month (year d) (month d))"

definition mk_date :: "int \<Rightarrow> int \<Rightarrow> int \<Rightarrow> error + date" where
  \<comment> \<open>\<^verbatim>\<open>datetime.date(year=y, month=m, day=d)\<close>: ValueError outside the calendar\<close>
  "mk_date y m d =
     (let r = \<lparr>year = y, month = m, day = d\<rparr>
      in if valid_date r then Inr r else Inl ValueError)"

definition toordinal :: "date \<Rightarrow> int" where
  "toordinal d = days_before_year (year d) + days_before_month (year d) (month d) + day d"

definition fromordinal :: "int \<Rightarrow> date" where
  "fromordinal n0 =
     (let n = n0 - 1;
          n400 = n div 146097; n = n mod 146097;
          n100 = n div 36524; n = n mod 36524;
          n4 = n div 1461; n = n mod 1461;
          n1 = n div 365; n = n mod 365;
          y = n400 * 400 + 1 + n100 * 100 + n4 * 4 + n1
      in if n1 = 4 \<or> n100 = 4 then \<lparr>year = y - 1, month = 12, day = 31\<rparr>
         else
           let leapyear = (n1 = 3 \<and> (n4 \<noteq> 24 \<or> n100 = 3));
               m = (n + 50) div 32;
               preceding = DAYS_BEFORE_MONTH ! nat (m - 1) + (if m > 2 \<and> leapyear then 1 else 0)
           in if preceding > n
              then let m' = m - 1;
                       preceding' = preceding -
                         (DAYS_IN_MONTH ! nat (m' - 1) + (if m' = 2 \<and> leapyear then 1 else 0))
                   in \<lparr>year = y, month = m', day = n - preceding' + 1\<rparr>
              else \<lparr>year = y, month = m, day = n - preceding + 1\<rparr>)"

definition isoweekday :: "date \<Rightarrow> int" where
  \<comment> \<open>1 is Monday, 7 is Sunday\<close>
  "isoweekday d = (if toordinal d mod 7 = 0 then 7 else toordinal d mod 7)"

definition date_ge :: "date \<Rightarrow> date \<Rightarrow> bool" where
  \<comment> \<open>\<^verbatim>\<open>a >= b\<close>: the comparison of the triples (year, month, day)\<close>
  "date_ge a b =
     (year a > year b \<or>
      (year a = year b \<and> (month a > month b \<or> (month a = month b \<and> day a \<ge> day b))))"

definition days_between :: "date \<Rightarrow> date \<Rightarrow> int" where
  \<comment> \<open>\<^verbatim>\<open>(a - b).days\<close>\<close>
  "days_between a b = toordinal a - toordinal b"

definition date_sub_days :: "date \<Rightarrow> int \<Rightarrow> error + date" where
  \<comment> \<open>\<^verbatim>\<open>d - datetime.timedelta(days=n)\<close>: OverflowError when the timedelta or the
      resulting date is out of range\<close>
  "date_sub_days d n =
     (if n < - 999999999 \<or> n > 999999999 then Inl OverflowError
      else let ord = toordinal d - n
           in if 0 < ord \<and> ord \<le> MAXORDINAL then Inr (fromordinal ord)
              else Inl OverflowError)"

section \<open>Retention policy (\<^verbatim>\<open>BackupFrequency\<close>)\<close>

text \<open>
  A tier is an integer: \<open>ALL_VALUE\<close> keeps everything, \<open>NO_VALUE\<close> keeps nothing, a
  positive \<open>N\<close> keeps the \<open>N\<close> most recent units. \<^verbatim>\<open>TimeReference.get().date()\<close>, fixed once
  for the process, is the parameter \<open>today\<close>.
\<close>

definition ALL_VALUE :: int where "ALL_VALUE = - 1"
definition NO_VALUE :: int where "NO_VALUE = 0"

record backup_frequency =
  self_day :: int
  self_week :: int
  self_month :: int
  self_year :: int

definition is_empty :: "backup_frequency \<Rightarrow> bool" where
  "is_empty self = list_all (\<lambda>freq. \<not> freq \<noteq> NO_VALUE)
        [self_day self, self_week self, self_month self, self_year self]"

definition keep_year :: "backup_frequency \<Rightarrow> date \<Rightarrow> date \<Rightarrow> error + bool" where
  \<comment> \<open>the \<^verbatim>\<open>if date.month == 1:\<close> block, nested in the month block\<close>
  "keep_year self today d =
     (if month d = 1 then
        if self_year self = ALL_VALUE then Inr True
        else if self_year self \<noteq> NO_VALUE then
          (case mk_date (year today - self_year self + 1) 1 1 of
             Inl e \<Rightarrow> Inl e
           | Inr last_allowed_date \<Rightarrow> Inr (date_ge d last_allowed_date))
        else Inr False
      else Inr False)"

definition keep_month :: "backup_frequency \<Rightarrow> date \<Rightarrow> date \<Rightarrow> error + bool" where
  \<comment> \<open>the \<^verbatim>\<open>if date.day == 1:\<close> block\<close>
  "keep_month self today d =
     (if day d = 1 then
        if self_month self = ALL_VALUE then Inr True
        else if self_month self \<noteq> NO_VALUE then
          (case mk_date (year today + (month today - self_month self) div 12)
                        ((month today - self_month self) mod 12 + 1) 1 of
             Inl e \<Rightarrow> Inl e
           | Inr last_allowed_date \<Rightarrow>
               if date_ge d last_allowed_date then Inr True else keep_year self today d)
        else keep_year self today d
      else Inr False)"

definition keep_week :: "backup_frequency \<Rightarrow> date \<Rightarrow> date \<Rightarrow> error + bool" where
  \<comment> \<open>the \<^verbatim>\<open>if date.isoweekday() == 1:\<close> block, then the rest of the function\<close>
  "keep_week self today d =
     (if isoweekday d = 1 then
        if self_week self = ALL_VALUE then Inr True
        else if self_week self \<noteq> NO_VALUE then
          (case date_sub_days today (isoweekday today + 7 * self_week self - 8) of
             Inl e \<Rightarrow> Inl e
           | Inr last_allowed_date \<Rightarrow>
               if date_ge d last_allowed_date then Inr True else keep_month self today d)
        else keep_month self today d
      else keep_month self today d)"

definition should_keep :: "backup_frequency \<Rightarrow> date \<Rightarrow> date \<Rightarrow> error + bool" where
  "should_keep self today d =
     (if self_day self = ALL_VALUE then Inr True
      else if self_day self \<noteq> NO_VALUE \<and> days_between today d + 1 \<le> self_day self
        then Inr True
      else keep_week self today d)"

section \<open>Storages\<close>

text \<open>
  \<^verbatim>\<open>LocalFolderStorage(freq, folder_name)\<close> and
  \<^verbatim>\<open>GlacierStorage(freq, vault_name, index_file)\<close>, the two subclasses of
  \<^verbatim>\<open>MemoryStorage\<close>.
\<close>

datatype storage =
    LocalFolderStorage backup_frequency string
  | GlacierStorage backup_frequency string string

fun freq :: "storage \<Rightarrow> backup_frequency" where
  "freq (LocalFolderStorage f folder_name) = f"
| "freq (GlacierStorage f vault_name index_file) = f"

definition should_save :: "date \<Rightarrow> storage \<Rightarrow> error + bool" where
  \<comment> \<open>\<^verbatim>\<open>self._freq.should_keep(TimeReference.get().date())\<close>\<close>
  "should_save today s = should_keep (freq s) today today"

section \<open>Configuration values and \<^verbatim>\<open>deep_merge\<close>\<close>

text \<open>
  A loaded configuration document is \<^verbatim>\<open>None\<close>, a primitive (\<^verbatim>\<open>is_primitive\<close>: a string, an
  integer or a boolean here), a sequence (\<^verbatim>\<open>is_array\<close>) or a dictionary (\<^verbatim>\<open>is_dict\<close>). A
  dictionary is the list of its items in insertion order, with string keys.
\<close>

datatype scalar = Str string | Num int | Boolean bool

datatype conf =
    CNone
  | Scalar scalar
  | Seq "conf list"
  | Mapping "(string \<times> conf) list"

fun dict_set :: "('k \<times> 'v) list \<Rightarrow> 'k \<Rightarrow> 'v \<Rightarrow> ('k \<times> 'v) list" where
  \<comment> \<open>\<^verbatim>\<open>d[k] = v\<close>: replaces the value of an existing key, appends a new key\<close>
  "dict_set [] k v = [(k, v)]"
| "dict_set ((k', v') # d) k v = (if k' = k then (k, v) # d else (k', v') # dict_set d k v)"

definition dict_keys :: "('k \<times> 'v) list \<Rightarrow> 'k set" where
  "dict_keys d = fst ` set d"

fun deep_merge :: "conf \<Rightarrow> conf \<Rightarrow> conf"
  and merge_items :: "(string \<times> conf) list \<Rightarrow> (string \<times> conf) list \<Rightarrow> (string \<times> conf) list"
where
  "deep_merge src CNone = src"
| "deep_merge CNone new = new"
| "deep_merge (Seq xs) (Seq ys) = Seq (xs @ ys)"
| "deep_merge (Seq xs) new = Seq (xs @ [new])"
| "deep_merge (Mapping d) (Seq ys) = Seq (ys @ [Mapping d])"
| "deep_merge (Mapping d) (Mapping e) = Mapping (merge_items d e)"
| "deep_merge (Mapping d) new = Seq [Mapping d, new]"
| "deep_merge src new = Seq [src, new]"
| "merge_items result [] = result"
| "merge_items result ((key, val) # rest) =
     merge_items
       (dict_set result key
          (case map_of result key of Some old \<Rightarrow> deep_merge old val | None \<Rightarrow> val))
       rest"

section \<open>Report\<close>

text \<open>
  The three dictionaries of a \<^verbatim>\<open>Report\<close>, from server name to the list of messages, each
  kept as the list of its items in insertion order.
\<close>

record report =
  server_issues :: "(string \<times> string list) list"
  server_success :: "(string \<times> string list) list"
  server_warnings :: "(string \<times> string list) list"

definition Report_init :: report where
  "Report_init = \<lparr>server_issues = [], server_success = [], server_warnings = []\<rparr>"

definition dict_append :: "(string \<times> 'a list) list \<Rightarrow> string \<Rightarrow> 'a \<Rightarrow> (string \<times> 'a list) list" where
  \<comment> \<open>\<^verbatim>\<open>d[server].append(x)\<close>, for a key that is present\<close>
  "dict_append d server x =
     dict_set d server ((case map_of d server of Some l \<Rightarrow> l | None \<Rightarrow> []) @ [x])"

definition dict_setdefault_empty :: "(string \<times> 'a list) list \<Rightarrow> string \<Rightarrow> (string \<times> 'a list) list" where
  \<comment> \<open>\<^verbatim>\<open>if server not in d.keys(): d[server] = []\<close>\<close>
  "dict_setdefault_empty d server = (if server \<notin> dict_keys d then dict_set d server [] else d)"

definition add_issue :: "report \<Rightarrow> string \<Rightarrow> string \<Rightarrow> report" where
  "add_issue self server error_details =
     self\<lparr>server_issues :=
       dict_append (dict_setdefault_empty (server_issues self) server) server error_details\<rparr>"

definition add_success :: "report \<Rightarrow> string \<Rightarrow> string \<Rightarrow> report" where
  "add_success self server success_details =
     self\<lparr>server_success :=
       dict_append (dict_setdefault_empty (server_success self) server) server success_details\<rparr>"

definition add_warning :: "report \<Rightarrow> string \<Rightarrow> string \<Rightarrow> report" where
  "add_warning self server warning_details =
     self\<lparr>server_warnings :=
       dict_append (dict_setdefault_empty (server_warnings self) server) server warning_details\<rparr>"

record entry =
  level :: string
  info :: string

fun append_entries ::
  "string \<Rightarrow> (string \<times> entry list) list \<Rightarrow> string \<Rightarrow> string list \<Rightarrow> (string \<times> entry list) list"
where
  \<comment> \<open>\<^verbatim>\<open>for error in errors: result[server].append({"level": lvl, "info": error})\<close>\<close>
  "append_entries lvl result server [] = result"
| "append_entries lvl result server (e # errors) =
     append_entries lvl (dict_append result server \<lparr>level = lvl, info = e\<rparr>) server errors"

fun by_server_items ::
  "string \<Rightarrow> (string \<times> entry list) list \<Rightarrow> (string \<times> string list) list \<Rightarrow> (string \<times> entry list) list"
where
  \<comment> \<open>one of the three \<^verbatim>\<open>for server, errors in ....items():\<close> loops\<close>
  "by_server_items lvl result [] = result"
| "by_server_items lvl result ((server, errors) # rest) =
     by_server_items lvl
       (append_entries lvl (dict_setdefault_empty result server) server errors) rest"

definition by_server :: "report \<Rightarrow> (string \<times> entry list) list" where
  "by_server self =
     by_server_items ''server''
       (by_server_items ''warning''
          (by_server_items ''error'' [] (server_issues self))
          (server_warnings self))
       (server_success self)"

text \<open>The calls that fill a report, to speak of any interleaving of them.\<close>

datatype report_call = AddIssue string string | AddWarning string string | AddSuccess string string

fun report_step :: "report \<Rightarrow> report_call \<Rightarrow> report" where
  "report_step r (AddIssue server m) = add_issue r server m"
| "report_step r (AddWarning server m) = add_warning r server m"
| "report_step r (AddSuccess server m) = add_success r server m"

definition report_after :: "report_call list \<Rightarrow> report" where
  "report_after calls = foldl report_step Report_init calls"

fun issues_for :: "string \<Rightarrow> report_call list \<Rightarrow> string list" where
  "issues_for s [] = []"
| "issues_for s (AddIssue server m # calls) =
     (if server = s then m # issues_for s calls else issues_for s calls)"
| "issues_for s (_ # calls) = issues_for s calls"

fun warnings_for :: "string \<Rightarrow> report_call list \<Rightarrow> string list" where
  "warnings_for s [] = []"
| "warnings_for s (AddWarning server m # calls) =
     (if server = s then m # warnings_for s calls else warnings_for s calls)"
| "warnings_for s (_ # calls) = warnings_for s calls"

fun successes_for :: "string \<Rightarrow> report_call list \<Rightarrow> string list" where
  "successes_for s [] = []"
| "successes_for s (AddSuccess server m # calls) =
     (if server = s then m # successes_for s calls else successes_for s calls)"
| "successes_for s (_ # calls) = successes_for s calls"

fun call_server :: "report_call \<Rightarrow> string" where
  "call_server (AddIssue server m) = server"
| "call_server (AddWarning server m) = server"
| "call_server (AddSuccess server m) = server"

section \<open>Write test cache\<close>

text \<open>
  \<^verbatim>\<open>WriteTestCache\<close> holds two dictionaries for the lifetime of the process. The world below
  adds the log of the write tests really performed. The outcome of a write test belongs to
  the environment: \<open>None\<close> when the write succeeds, \<open>Some e\<close> when it raises a
  \<^verbatim>\<open>StandardError\<close> whose text is \<open>e\<close>.
\<close>

datatype probe = FolderProbe string | GlacierProbe string

record world =
  folder_cache :: "string \<rightharpoonup> bool"
  glacier_vault_cache :: "string \<rightharpoonup> bool"
  probes :: "probe list"

definition init_world :: world where
  "init_world = \<lparr>folder_cache = Map.empty, glacier_vault_cache = Map.empty, probes = []\<rparr>"

definition is_folder_success :: "world \<Rightarrow> string \<Rightarrow> bool option" where
  "is_folder_success w folder = folder_cache w folder"

definition set_folder_success :: "world \<Rightarrow> string \<Rightarrow> bool \<Rightarrow> world" where
  "set_folder_success w folder v = w\<lparr>folder_cache := (folder_cache w)(folder \<mapsto> v)\<rparr>"

definition is_glacier_success :: "world \<Rightarrow> string \<Rightarrow> bool option" where
  "is_glacier_success w vault = glacier_vault_cache w vault"

definition set_glacier_success :: "world \<Rightarrow> string \<Rightarrow> bool \<Rightarrow> world" where
  "set_glacier_success w vault v = w\<lparr>glacier_vault_cache := (glacier_vault_cache w)(vault \<mapsto> v)\<rparr>"

definition check_folder_writable :: "string option \<Rightarrow> string \<Rightarrow> world \<Rightarrow> string list \<times> world" where
  "check_folder_writable outcome folder w =
     (case is_folder_success w folder of
        None \<Rightarrow>
          (let w1 = w\<lparr>probes := probes w @ [FolderProbe folder]\<rparr>
           in case outcome of
                None \<Rightarrow> ([], set_folder_success w1 folder True)
              | Some e \<Rightarrow>
                  ([''Unable to write to folder '' @ folder @ '': '' @ e],
                   set_folder_success w1 folder False))
      | Some cache_value \<Rightarrow>
          if \<not> cache_value
          then ([''Unable to write to folder '' @ folder @ '' (see previous errors)''], w)
          else ([], w))"

definition check_glacier_access :: "string option \<Rightarrow> string \<Rightarrow> world \<Rightarrow> string list \<times> world" where
  "check_glacier_access outcome vault_name w =
     (case is_glacier_success w vault_name of
        None \<Rightarrow>
          (let w1 = w\<lparr>probes := probes w @ [GlacierProbe vault_name]\<rparr>
           in case outcome of
                None \<Rightarrow> ([], set_glacier_success w1 vault_name True)
              | Some e \<Rightarrow>
                  ([''Unable to write to glacier vault '' @ vault_name @ '': '' @ e],
                   set_glacier_success w1 vault_name False))
      | Some cache_value \<Rightarrow>
          if \<not> cache_value
          then ([''Unable to write to glacier vault '' @ vault_name], w)
          else ([], w))"

fun check_writable :: "string option \<Rightarrow> storage \<Rightarrow> world \<Rightarrow> string list \<times> world" where
  "check_writable outcome (LocalFolderStorage f local_folder) w =
     check_folder_writable outcome local_folder w"
| "check_writable outcome (GlacierStorage f vault_name index_file) w =
     check_glacier_access outcome vault_name w"

text \<open>
  A writability check comes from a storage or, for the staging folder of an action, from
  \<^verbatim>\<open>Action.check_folder_writable\<close>. A run is a list of checks, each with the outcome its
  write test has if it is performed at that moment.
\<close>

datatype check_call = CheckStorage storage | CheckFolder string

fun probe_key :: "check_call \<Rightarrow> probe" where
  "probe_key (CheckStorage (LocalFolderStorage f local_folder)) = FolderProbe local_folder"
| "probe_key (CheckStorage (GlacierStorage f vault_name index_file)) = GlacierProbe vault_name"
| "probe_key (CheckFolder folder) = FolderProbe folder"

fun cached :: "world \<Rightarrow> probe \<Rightarrow> bool option" where
  "cached w (FolderProbe folder) = is_folder_success w folder"
| "cached w (GlacierProbe vault) = is_glacier_success w vault"

fun do_check :: "check_call \<Rightarrow> string option \<Rightarrow> world \<Rightarrow> string list \<times> world" where
  "do_check (CheckStorage s) outcome w = check_writable outcome s w"
| "do_check (CheckFolder folder) outcome w = check_folder_writable outcome folder w"

fun run_checks :: "(check_call \<times> string option) list \<Rightarrow> world \<Rightarrow> world" where
  "run_checks [] w = w"
| "run_checks ((c, outcome) # rest) w = run_checks rest (snd (do_check c outcome w))"

section \<open>Actions\<close>

text \<open>
  An \<^verbatim>\<open>Action\<close> with the fields of its constructor and its storage list; the subclass and
  its own fields are the \<open>kind\<close>: a \<^verbatim>\<open>FileAction\<close> with its remote folder and exclusions, or
  one of the three \<^verbatim>\<open>DbAction\<close> subclasses with user, database name and port.
\<close>

datatype db_class = MySqlAction | PostgresAction | MongoDbAction

datatype action_kind =
    FileAction string "string list"
  | DbAction db_class "string option" string int

record action =
  server_name :: string
  prefix :: string
  name :: string
  dest_folder :: "string option"
  ssh_user :: "string option"
  ssh_key :: "string option"
  storage_list :: "storage list"
  kind :: action_kind

definition full_name :: "action \<Rightarrow> string" where
  "full_name a = prefix a @ ''_'' @ name a"

fun db_type :: "db_class \<Rightarrow> string" where
  "db_type MySqlAction = ''mysql''"
| "db_type PostgresAction = ''postgres''"
| "db_type MongoDbAction = ''mongo''"

fun get_extension :: "db_class \<Rightarrow> string" where
  "get_extension MongoDbAction = ''mongo''"
| "get_extension _ = ''sql''"

fun archive_ext :: "action_kind \<Rightarrow> string" where
  \<comment> \<open>the extension \<^verbatim>\<open>run_backup\<close> hands to \<^verbatim>\<open>save\<close>\<close>
  "archive_ext (FileAction remote_folder exclusions) = ''tgz''"
| "archive_ext (DbAction c db_user db_name db_port) = get_extension c @ ''.gz''"

fun class_label :: "db_class \<Rightarrow> string" where
  "class_label MySqlAction = ''MySql''"
| "class_label PostgresAction = ''Postgres''"
| "class_label MongoDbAction = ''MongoDb''"

definition to_str_action :: "action \<Rightarrow> error + string" where
  \<comment> \<open>\<^verbatim>\<open>to_str(action)\<close>, that is \<^verbatim>\<open>__str__\<close> of the subclass. A concatenation of a string
      and \<^verbatim>\<open>None\<close> raises \<^verbatim>\<open>TypeError\<close>: \<^verbatim>\<open>"database user: " + self._db_user\<close> of the database
      actions, then \<^verbatim>\<open>"local destination: " + self._dest_folder\<close> of every action. The user
      and key of ssh are guarded (\<^verbatim>\<open>if self._ssh_user else "Default"\<close>). Of the text, the
      heading line is kept and the indented detail lines are left out.\<close>
  "to_str_action a =
     (case kind a of
        FileAction remote_folder exclusions \<Rightarrow>
          (case dest_folder a of
             None \<Rightarrow> Inl TypeError
           | Some d \<Rightarrow> Inr (''File action '' @ full_name a @ '' on '' @ server_name a @ '': ''))
      | DbAction c db_user db_name db_port \<Rightarrow>
          (case db_user of
             None \<Rightarrow> Inl TypeError
           | Some u \<Rightarrow>
               (case dest_folder a of
                  None \<Rightarrow> Inl TypeError
                | Some d \<Rightarrow>
                    Inr (class_label c @ '' action '' @ full_name a @ '' on '' @ server_name a
                         @ '': ''))))"

subsection \<open>\<^verbatim>\<open>run_backup\<close>\<close>

text \<open>
  Fetching, staging and packaging are commands of the environment: \<open>stage\<close> is \<open>None\<close>
  when they succeed and \<open>Some e\<close> when one of them raises. \<open>save s full ext\<close> is the outcome
  of \<^verbatim>\<open>s.save(archive, full, ext)\<close>. The result carries the storages on which \<^verbatim>\<open>save\<close> was
  called, in call order, and the exception that leaves \<^verbatim>\<open>run_backup\<close>, if any. The loop over
  the storages is the same in \<^verbatim>\<open>FileAction.run_backup\<close> and \<^verbatim>\<open>DbAction.run_backup\<close>; it has no
  \<^verbatim>\<open>try\<close>.
\<close>

fun save_loop ::
  "date \<Rightarrow> (storage \<Rightarrow> error option) \<Rightarrow> storage list \<Rightarrow> storage list
     \<Rightarrow> storage list \<times> (error + unit)"
where
  "save_loop today save attempted [] = (attempted, Inr ())"
| "save_loop today save attempted (s # rest) =
     (case should_save today s of
        Inl e \<Rightarrow> (attempted, Inl e)
      | Inr False \<Rightarrow> save_loop today save attempted rest
      | Inr True \<Rightarrow>
          (case save s of
             Some e \<Rightarrow> (attempted @ [s], Inl e)
           | None \<Rightarrow> save_loop today save (attempted @ [s]) rest))"

definition run_backup ::
  "date \<Rightarrow> error option \<Rightarrow> (storage \<Rightarrow> string \<Rightarrow> string \<Rightarrow> error option) \<Rightarrow> action
     \<Rightarrow> storage list \<times> (error + unit)"
where
  "run_backup today stage save a =
     (case stage of
        Some e \<Rightarrow> ([], Inl e)
      | None \<Rightarrow>
          save_loop today (\<lambda>s. save s (full_name a) (archive_ext (kind a))) [] (storage_list a))"

subsection \<open>The uniqueness check of \<^verbatim>\<open>_load_conf\<close>\<close>

text \<open>
  Every action of the list is a separate object, so \<^verbatim>\<open>id(action) == id(other_action)\<close> is
  the equality of the positions in the list. The argument of \<^verbatim>\<open>ConfigError\<close> is evaluated
  before the \<^verbatim>\<open>raise\<close>: \<^verbatim>\<open>to_str(action)\<close>, then \<^verbatim>\<open>to_str(other_action)\<close>, and an exception
  of either leaves the check in place of the \<^verbatim>\<open>ConfigError\<close>.
\<close>

fun check_other :: "nat \<Rightarrow> action \<Rightarrow> (nat \<times> action) list \<Rightarrow> error + unit" where
  "check_other i a [] = Inr ()"
| "check_other i a ((j, other_action) # rest) =
     (if i = j then check_other i a rest
      else if full_name a = full_name other_action then
        (case to_str_action a of
           Inl e \<Rightarrow> Inl e
         | Inr text_a \<Rightarrow>
             (case to_str_action other_action of
                Inl e \<Rightarrow> Inl e
              | Inr text_other \<Rightarrow>
                  Inl (ConfigError
                    (''Two actions have the same final archive name: '' @ [CHR 0x0A] @ text_a
                     @ [CHR 0x0A] @ ''is incompatible with:'' @ [CHR 0x0A] @ text_other))))
      else check_other i a rest)"

fun check_each :: "(nat \<times> action) list \<Rightarrow> (nat \<times> action) list \<Rightarrow> error + unit" where
  "check_each actions [] = Inr ()"
| "check_each actions ((i, a) # rest) =
     (case check_other i a actions of Inl e \<Rightarrow> Inl e | Inr u \<Rightarrow> check_each actions rest)"

definition check_full_names :: "action list \<Rightarrow> error + unit" where
  "check_full_names actions = check_each (enumerate 0 actions) (enumerate 0 actions)"

definition load_conf_finish ::
  "action list \<Rightarrow> error + 'r list \<Rightarrow> error + action list \<times> 'r list"
where
  \<comment> \<open>the end of \<^verbatim>\<open>_load_conf\<close>, from the actions the third parsing built: the check of the
      full names, then the report targets (\<open>reports\<close> is the outcome of the fourth parsing),
      then \<^verbatim>\<open>return actions, report_targets\<close>\<close>
  "load_conf_finish actions reports =
     (case check_full_names actions of
        Inl e \<Rightarrow> Inl e
      | Inr u \<Rightarrow> (case reports of Inl e \<Rightarrow> Inl e | Inr report_targets \<Rightarrow> Inr (actions, report_targets)))"

section \<open>Listing archives\<close>

text \<open>Strings: \<^verbatim>\<open>s.split(sep, maxsplit)\<close>, \<^verbatim>\<open>s.startswith(p)\<close>, \<^verbatim>\<open>s[a:b]\<close>, \<^verbatim>\<open>int(s)\<close>.\<close>

fun split_max :: "char \<Rightarrow> nat \<Rightarrow> string \<Rightarrow> string list" where
  "split_max c 0 s = [s]"
| "split_max c (Suc n) s =
     (if c \<in> set s
      then takeWhile (\<lambda>x. x \<noteq> c) s # split_max c n (tl (dropWhile (\<lambda>x. x \<noteq> c) s))
      else [s])"

definition startswith :: "string \<Rightarrow> string \<Rightarrow> bool" where
  "startswith s p = (take (length p) s = p)"

definition slice :: "string \<Rightarrow> nat \<Rightarrow> nat \<Rightarrow> string" where
  "slice s a b = take (b - a) (drop a s)"

definition is_digit :: "char \<Rightarrow> bool" where
  "is_digit c = (c \<in> set ''0123456789'')"

definition digit_val :: "char \<Rightarrow> int" where
  "digit_val c = int (of_char c) - 48"

definition is_space :: "char \<Rightarrow> bool" where
  "is_space c = (c \<in> {CHR '' '', CHR 0x09, CHR 0x0A, CHR 0x0B, CHR 0x0C, CHR 0x0D})"

definition strip :: "string \<Rightarrow> string" where
  "strip s = rev (dropWhile is_space (rev (dropWhile is_space s)))"

definition py_int :: "string \<Rightarrow> error + int" where
  \<comment> \<open>\<^verbatim>\<open>int(s)\<close> for a string: surrounding white space is dropped, a sign is allowed, the rest
      must be decimal digits\<close>
  "py_int s =
     (let t = strip s;
          neg = (t \<noteq> [] \<and> hd t = CHR ''-'');
          body = (if t \<noteq> [] \<and> (hd t = CHR ''-'' \<or> hd t = CHR ''+'') then tl t else t)
      in if body \<noteq> [] \<and> list_all is_digit body
         then Inr ((if neg then - 1 else 1) * foldl (\<lambda>acc c. 10 * acc + digit_val c) 0 body)
         else Inl ValueError)"

definition re_match_digits :: "string \<Rightarrow> bool" where
  \<comment> \<open>\<^verbatim>\<open>re.match(r"^[0-9]+$", s)\<close>; \<^verbatim>\<open>$\<close> also matches before a final newline\<close>
  "re_match_digits s =
     (let body = (if s \<noteq> [] \<and> last s = CHR 0x0A then butlast s else s)
      in body \<noteq> [] \<and> list_all is_digit body)"

definition path_join :: "string \<Rightarrow> string \<Rightarrow> string" where
  \<comment> \<open>\<^verbatim>\<open>os.path.join(folder, filename)\<close> for a file name without a slash\<close>
  "path_join folder filename =
     (if folder = [] \<or> last folder = CHR ''/'' then folder @ filename
      else folder @ ''/'' @ filename)"

definition basename :: "string \<Rightarrow> string" where
  "basename p = rev (takeWhile (\<lambda>x. x \<noteq> CHR ''/'') (rev p))"

definition parse_archive_date :: "string \<Rightarrow> error + date" where
  \<comment> \<open>the body of the \<^verbatim>\<open>try\<close>: the date of the eight characters before the underscore\<close>
  "parse_archive_date archive_date =
     (case py_int (slice archive_date 0 4) of
        Inl e \<Rightarrow> Inl e
      | Inr y \<Rightarrow>
          (case py_int (slice archive_date 4 6) of
             Inl e \<Rightarrow> Inl e
           | Inr m \<Rightarrow>
               (case py_int (slice archive_date 6 8) of
                  Inl e \<Rightarrow> Inl e
                | Inr d \<Rightarrow> mk_date y m d)))"

definition wanted :: "string option \<Rightarrow> string \<Rightarrow> bool" where
  \<comment> \<open>not (\<^verbatim>\<open>action_fullname and not archive_name.startswith(action_fullname+".")\<close>)\<close>
  "wanted action_fullname archive_name =
     (case action_fullname of
        None \<Rightarrow> True
      | Some n \<Rightarrow> n = [] \<or> startswith archive_name (n @ ''.''))"

fun local_list_loop ::
  "(string \<Rightarrow> bool) \<Rightarrow> string \<Rightarrow> string option \<Rightarrow> string list \<Rightarrow> string list
     \<Rightarrow> error + string list"
where
  "local_list_loop isfile local_folder action_fullname results [] = Inr results"
| "local_list_loop isfile local_folder action_fullname results (filename # rest) =
     (let full_path = path_join local_folder filename in
      if \<not> isfile full_path
        then local_list_loop isfile local_folder action_fullname results rest
      else if length filename < 10 \<or> filename ! 8 \<noteq> CHR ''_'' \<or> CHR ''_'' \<in> set (slice filename 0 8)
        then local_list_loop isfile local_folder action_fullname results rest
      else
        (case split_max CHR ''_'' 1 filename of
           [archive_date, archive_name] \<Rightarrow>
             if \<not> re_match_digits archive_date
               then local_list_loop isfile local_folder action_fullname results rest
             else
               (case parse_archive_date archive_date of
                  Inl e \<Rightarrow> local_list_loop isfile local_folder action_fullname results rest
                | Inr d \<Rightarrow>
                    if \<not> wanted action_fullname archive_name
                      then local_list_loop isfile local_folder action_fullname results rest
                    else local_list_loop isfile local_folder action_fullname
                           (results @ [full_path]) rest)
         | _ \<Rightarrow> Inl ValueError))"

fun glacier_list_loop :: "string option \<Rightarrow> string list \<Rightarrow> string list \<Rightarrow> error + string list" where
  "glacier_list_loop action_fullname results [] = Inr results"
| "glacier_list_loop action_fullname results (filename # rest) =
     (case split_max CHR ''_'' 1 filename of
        [archive_date, archive_name] \<Rightarrow>
          if \<not> wanted action_fullname archive_name
            then glacier_list_loop action_fullname results rest
          else glacier_list_loop action_fullname (results @ [filename]) rest
      | _ \<Rightarrow> Inl ValueError)"

fun list_archives ::
  "(string \<Rightarrow> bool) \<Rightarrow> (storage \<Rightarrow> string list) \<Rightarrow> storage \<Rightarrow> string option \<Rightarrow> error + string list"
where
  \<comment> \<open>\<open>isfile\<close> is \<^verbatim>\<open>os.path.isfile\<close>; \<open>entries\<close> is \<^verbatim>\<open>os.listdir\<close> of the folder of a local
      storage and \<^verbatim>\<open>_list_glacier_memories()\<close> of a glacier storage\<close>
  "list_archives isfile entries (LocalFolderStorage f local_folder) action_fullname =
     local_list_loop isfile local_folder action_fullname []
       (entries (LocalFolderStorage f local_folder))"
| "list_archives isfile entries (GlacierStorage f vault_name index_file) action_fullname =
     glacier_list_loop action_fullname [] (entries (GlacierStorage f vault_name index_file))"

definition archive_should_keep :: "storage \<Rightarrow> date \<Rightarrow> string \<Rightarrow> error + bool" where
  \<comment> \<open>\<^verbatim>\<open>MemoryStorage.should_keep(archive)\<close>, which \<^verbatim>\<open>clean_archives\<close> asks before it removes\<close>
  "archive_should_keep self today archive =
     (let filename = basename archive in
      if length filename < 10 \<or> filename ! 8 \<noteq> CHR ''_'' \<or> CHR ''_'' \<in> set (slice filename 0 8)
        then Inr False
      else
        (case split_max CHR ''_'' 1 filename of
           [archive_date, archive_name] \<Rightarrow>
             if \<not> re_match_digits archive_date then Inr False
             else
               (case parse_archive_date archive_date of
                  Inl e \<Rightarrow> Inr False
                | Inr d \<Rightarrow> should_keep (freq self) today d)
         | _ \<Rightarrow> Inl ValueError))"

section \<open>Target selection\<close>

text \<open>
  \<^verbatim>\<open>fnmatch.fnmatch(name, pattern)\<close> is the parameter \<open>fnmatch\<close> of the selector.
  \<open>fnmatch_plain\<close> is that function on POSIX for the patterns without a bracket: a star
  matches any run of characters, a question mark any one character, any other character
  itself.
\<close>

fun fnmatch_plain :: "string \<Rightarrow> string \<Rightarrow> bool" where
  "fnmatch_plain [] [] = True"
| "fnmatch_plain (c # cs) [] = False"
| "fnmatch_plain [] (p # ps) = (p = CHR ''*'' \<and> fnmatch_plain [] ps)"
| "fnmatch_plain (c # cs) (p # ps) =
     (if p = CHR ''*'' then fnmatch_plain (c # cs) ps \<or> fnmatch_plain cs (p # ps)
      else (p = CHR ''?'' \<or> p = c) \<and> fnmatch_plain cs ps)"

definition select_with_colon :: "(string \<Rightarrow> string \<Rightarrow> bool) \<Rightarrow> string \<Rightarrow> string \<Rightarrow> action \<Rightarrow> bool" where
  \<comment> \<open>whether the loop of the \<^verbatim>\<open>if ":" in identifier:\<close> branch appends the action\<close>
  "select_with_colon fnmatch first_part second_part a =
     (if fnmatch (server_name a) first_part \<or> fnmatch (prefix a) first_part then
        if fnmatch (name a) second_part \<or> fnmatch (full_name a) second_part then True
        else
          (case kind a of
             FileAction remote_folder exclusions \<Rightarrow> fnmatch remote_folder second_part
           | DbAction c db_user database db_port \<Rightarrow>
               if fnmatch database second_part then True
               else fnmatch (db_type c) second_part)
      else False)"

definition select_plain :: "(string \<Rightarrow> string \<Rightarrow> bool) \<Rightarrow> string \<Rightarrow> action \<Rightarrow> bool" where
  \<comment> \<open>whether the loop of the \<^verbatim>\<open>else:\<close> branch appends the action\<close>
  "select_plain fnmatch identifier a =
     (if fnmatch (server_name a) identifier then True
      else if fnmatch (name a) identifier then True
      else if fnmatch (full_name a) identifier then True
      else if fnmatch (prefix a) identifier then True
      else
        (case kind a of
           FileAction remote_folder exclusions \<Rightarrow> fnmatch remote_folder identifier
         | DbAction c db_user database db_port \<Rightarrow>
             if fnmatch database identifier then True
             else fnmatch (db_type c) identifier))"

definition glob_target ::
  "(string \<Rightarrow> string \<Rightarrow> bool) \<Rightarrow> action list \<Rightarrow> string \<Rightarrow> error + action list"
where
  "glob_target fnmatch actions identifier =
     (if CHR '':'' \<in> set identifier then
        (case split_max CHR '':'' 2 identifier of
           [first_part, second_part] \<Rightarrow>
             (let results = filter (select_with_colon fnmatch first_part second_part) actions
              in if results = [] then Inl (RuntimeError (''Unknown target '' @ identifier))
                 else Inr results)
         | _ \<Rightarrow> Inl ValueError)
      else
        (let results = filter (select_plain fnmatch identifier) actions
         in if results = [] then Inl (RuntimeError (''Unknown target '' @ identifier))
            else Inr results))"

section \<open>Auxiliary notions for the statements\<close>

definition got :: "('k \<times> 'v list) list \<Rightarrow> 'k \<Rightarrow> 'v list" where
  \<comment> \<open>the list under a key, empty for an absent key\<close>
  "got d k = (case map_of d k of Some l \<Rightarrow> l | None \<Rightarrow> [])"

definition wf_report :: "report \<Rightarrow> bool" where
  \<comment> \<open>a dictionary holds a key once\<close>
  "wf_report r =
     (distinct (map fst (server_issues r)) \<and> distinct (map fst (server_warnings r))
      \<and> distinct (map fst (server_success r)))"

definition cache_inv :: "world \<Rightarrow> bool" where
  \<comment> \<open>the write tests performed are those whose outcome is cached, each performed once\<close>
  "cache_inv w = (distinct (probes w) \<and> (\<forall>k. k \<in> set (probes w) \<longleftrightarrow> cached w k \<noteq> None))"

fun first_outcome :: "probe \<Rightarrow> (check_call \<times> string option) list \<Rightarrow> bool option" where
  \<comment> \<open>whether the write test of the first check on a key succeeds\<close>
  "first_outcome k [] = None"
| "first_outcome k ((c, outcome) # rest) =
     (if probe_key c = k then Some (outcome = None) else first_outcome k rest)"

definition clash :: "nat \<Rightarrow> action \<Rightarrow> (nat \<times> action) list \<Rightarrow> bool" where
  \<comment> \<open>another position of the list holds an action of the same full name\<close>
  "clash i a xs = (\<exists>p\<in>set xs. fst p \<noteq> i \<and> full_name (snd p) = full_name a)"




definition passes :: "date \<Rightarrow> (storage \<Rightarrow> error option) \<Rightarrow> storage \<Rightarrow> bool" where
  \<comment> \<open>the loop of \<^verbatim>\<open>run_backup\<close> gets past the storage: it is skipped, or saved without failure\<close>
  "passes today sv s =
     (should_save today s = Inr False \<or> should_save today s = Inr True \<and> sv s = None)"

definition to_save :: "date \<Rightarrow> storage list \<Rightarrow> storage list" where
  \<comment> \<open>the storages whose \<^verbatim>\<open>should_save()\<close> is true, in the order of the list\<close>
  "to_save today ss = filter (\<lambda>s. should_save today s = Inr True) ss"

definition renders :: "action \<Rightarrow> bool" where
  \<comment> \<open>\<^verbatim>\<open>to_str(action)\<close> returns a text\<close>
  "renders a = (\<exists>t. to_str_action a = Inr t)"

section \<open>Example data\<close>

definition keep_all :: backup_frequency where
  "keep_all = \<lparr>self_day = - 1, self_week = 0, self_month = 0, self_year = 0\<rparr>"

definition local_store :: storage where
  "local_store = LocalFolderStorage keep_all ''/backup''"

definition glacier_store :: storage where
  "glacier_store = GlacierStorage keep_all ''eu-west-1:vault'' ''/root/.glacier_index''"

definition web1_app :: action where
  "web1_app =
     \<lparr>server_name = ''web1'', prefix = ''web1'', name = ''app'', dest_folder = Some ''/staging'',
      ssh_user = None, ssh_key = None, storage_list = [local_store, glacier_store],
      kind = FileAction ''/var/www'' []\<rparr>"

definition web1_db :: action where
  "web1_db =
     \<lparr>server_name = ''web1'', prefix = ''web1'', name = ''db'', dest_folder = Some ''/staging'',
      ssh_user = None, ssh_key = None, storage_list = [local_store],
      kind = DbAction MySqlAction None ''shop'' 3306\<rparr>"

definition api1_db :: action where
  "api1_db =
     \<lparr>server_name = ''api1'', prefix = ''api1'', name = ''db'', dest_folder = Some ''/staging'',
      ssh_user = None, ssh_key = None, storage_list = [local_store],
      kind = DbAction PostgresAction None ''users'' 5432\<rparr>"

definition web1_www :: action where
  \<comment> \<open>a \<^verbatim>\<open>files\<close> entry \<^verbatim>\<open>www\<close> of server \<^verbatim>\<open>web1\<close>, in a configuration without \<^verbatim>\<open>dest_folder\<close>\<close>
  "web1_www =
     \<lparr>server_name = ''web1'', prefix = ''web1'', name = ''www'', dest_folder = None,
      ssh_user = None, ssh_key = None, storage_list = [local_store],
      kind = FileAction ''/var/www'' []\<rparr>"

definition web1_www_again :: action where
  \<comment> \<open>the entry \<^verbatim>\<open>www\<close> of a second block of server \<^verbatim>\<open>web1\<close>\<close>
  "web1_www_again =
     \<lparr>server_name = ''web1'', prefix = ''web1'', name = ''www'', dest_folder = None,
      ssh_user = None, ssh_key = None, storage_list = [local_store],
      kind = FileAction ''/srv/www'' []\<rparr>"

definition far_store :: storage where
  \<comment> \<open>a year tier that reaches before year 1\<close>
  "far_store =
     LocalFolderStorage \<lparr>self_day = 0, self_week = 0, self_month = 0, self_year = 3000\<rparr> ''/old''"

definition web1_three :: action where
  "web1_three = web1_app\<lparr>storage_list := [local_store, far_store, glacier_store]\<rparr>"

definition local_fails :: "storage \<Rightarrow> string \<Rightarrow> string \<Rightarrow> error option" where
  \<comment> \<open>an environment in which the copy to the local folder fails and the upload works\<close>
  "local_fails s full ext = (if s = local_store then Some (StandardError ''cp failed'') else None)"

definition all_saved :: "storage \<Rightarrow> string \<Rightarrow> string \<Rightarrow> error option" where
  "all_saved s full ext = None"



section \<open>Properties of the calendar\<close>

text \<open>The ordinal of the date of an ordinal is that ordinal: \<^verbatim>\<open>fromordinal\<close> is right.\<close>

lemma div_decomp: "0 \<le> r \<Longrightarrow> r < k \<Longrightarrow> (k * q + r) div k = (q::int)"
  by (simp add: div_pos_pos_trivial)

lemma mod_decomp: "0 \<le> r \<Longrightarrow> r < k \<Longrightarrow> (k * q + r) mod k = (r::int)"
  by (simp add: mod_pos_pos_trivial)

lemma dby_decomp:
  assumes "0 \<le> b" "b \<le> 3" "0 \<le> c" "c \<le> 24" "0 \<le> d" "d \<le> 3"
  shows "days_before_year (400 * a + 100 * b + 4 * c + d + 1)
           = 146097 * a + 36524 * b + 1461 * c + 365 * d"
proof -
  have "(4 * (100 * a + 25 * b + c) + d) div 4 = 100 * a + 25 * b + c"
    using assms by (intro div_decomp) simp_all
  then have d4: "(400 * a + 100 * b + 4 * c + d) div 4 = 100 * a + 25 * b + c"
    by (simp add: algebra_simps)
  have "(100 * (4 * a + b) + (4 * c + d)) div 100 = 4 * a + b"
    using assms by (intro div_decomp) simp_all
  then have d100: "(400 * a + 100 * b + 4 * c + d) div 100 = 4 * a + b"
    by (simp add: algebra_simps)
  have "(400 * a + (100 * b + 4 * c + d)) div 400 = a"
    using assms by (intro div_decomp) simp_all
  then have d400: "(400 * a + 100 * b + 4 * c + d) div 400 = a"
    by (simp add: algebra_simps)
  show ?thesis
    by (simp add: days_before_year_def d4 d100 d400)
qed

lemma is_leap_decomp:
  assumes "0 \<le> b" "b \<le> 3" "0 \<le> c" "c \<le> 24" "0 \<le> d" "d \<le> 3"
  shows "is_leap (400 * a + 100 * b + 4 * c + d + 1) \<longleftrightarrow> d = 3 \<and> (c \<noteq> 24 \<or> b = 3)"
proof (cases "d = 3")
  case False
  with assms have d: "0 \<le> d + 1" "d + 1 < 4" by simp_all
  have "(4 * (100 * a + 25 * b + c) + (d + 1)) mod 4 = d + 1"
    using d by (intro mod_decomp)
  then have "(400 * a + 100 * b + 4 * c + d + 1) mod 4 = d + 1"
    by (simp add: algebra_simps)
  with assms False show ?thesis by (simp add: is_leap_def)
next
  case True
  have m4: "(400 * a + 100 * b + 4 * c + d + 1) mod 4 = 0"
  proof -
    have "(4 * (100 * a + 25 * b + c + 1) + 0) mod 4 = 0" by (intro mod_decomp) simp_all
    then show ?thesis using True by (simp add: algebra_simps)
  qed
  show ?thesis
  proof (cases "c = 24")
    case False
    with assms have c: "0 \<le> 4 * c + 4" "4 * c + 4 < 100" by simp_all
    have "(100 * (4 * a + b) + (4 * c + 4)) mod 100 = 4 * c + 4"
      using c by (intro mod_decomp)
    then have "(400 * a + 100 * b + 4 * c + d + 1) mod 100 = 4 * c + 4"
      using True by (simp add: algebra_simps)
    with assms True False m4 show ?thesis by (simp add: is_leap_def)
  next
    case c24: True
    have m100: "(400 * a + 100 * b + 4 * c + d + 1) mod 100 = 0"
    proof -
      have "(100 * (4 * a + b + 1) + 0) mod 100 = 0" by (intro mod_decomp) simp_all
      then show ?thesis using True c24 by (simp add: algebra_simps)
    qed
    show ?thesis
    proof (cases "b = 3")
      case False
      with assms have b: "0 \<le> 100 * b + 100" "100 * b + 100 < 400" by simp_all
      have "(400 * a + (100 * b + 100)) mod 400 = 100 * b + 100"
        using b by (intro mod_decomp)
      then have "(400 * a + 100 * b + 4 * c + d + 1) mod 400 = 100 * b + 100"
        using True c24 by (simp add: algebra_simps)
      with assms True c24 False m4 m100 show ?thesis by (simp add: is_leap_def)
    next
      case b3: True
      have "(400 * (a + 1) + 0) mod 400 = 0" by (intro mod_decomp) simp_all
      then have "(400 * a + 100 * b + 4 * c + d + 1) mod 400 = 0"
        using True c24 b3 by (simp add: algebra_simps)
      with True c24 b3 m4 m100 show ?thesis by (simp add: is_leap_def)
    qed
  qed
qed

lemma quot_bounds:
  fixes r :: int
  shows "0 \<le> r \<Longrightarrow> r < 146097 \<Longrightarrow> 0 \<le> r div 36524 \<and> r div 36524 \<le> 4"
    and "0 \<le> r \<Longrightarrow> r < 36524 \<Longrightarrow> 0 \<le> r div 1461 \<and> r div 1461 \<le> 24"
    and "0 \<le> r \<Longrightarrow> r < 1461 \<Longrightarrow> 0 \<le> r div 365 \<and> r div 365 \<le> 4"
  by arith+

lemma month_day_sum:
  fixes r :: int
  assumes "0 \<le> r" "r < (if leap then 366 else 365)"
  shows "(let m = (r + 50) div 32;
              preceding = DAYS_BEFORE_MONTH ! nat (m - 1) + (if m > 2 \<and> leap then 1 else 0)
          in if preceding > r
             then let m' = m - 1;
                      preceding' = preceding -
                        (DAYS_IN_MONTH ! nat (m' - 1) + (if m' = 2 \<and> leap then 1 else 0))
                  in DAYS_BEFORE_MONTH ! nat (m' - 1) + (if m' > 2 \<and> leap then 1 else 0)
                       + (r - preceding' + 1)
             else DAYS_BEFORE_MONTH ! nat (m - 1) + (if m > 2 \<and> leap then 1 else 0)
                    + (r - preceding + 1)) = r + 1"
proof -
  have range: "1 \<le> (r + 50) div 32" "(r + 50) div 32 \<le> 12"
    using assms by (auto split: if_splits)
  have "\<And>m::int. 1 \<le> m \<Longrightarrow> m \<le> 12 \<Longrightarrow>
      m = 1 \<or> m = 2 \<or> m = 3 \<or> m = 4 \<or> m = 5 \<or> m = 6 \<or> m = 7 \<or> m = 8 \<or> m = 9
      \<or> m = 10 \<or> m = 11 \<or> m = 12"
    by arith
  from this [OF range]
  consider "(r + 50) div 32 = 1" | "(r + 50) div 32 = 2" | "(r + 50) div 32 = 3"
    | "(r + 50) div 32 = 4" | "(r + 50) div 32 = 5" | "(r + 50) div 32 = 6"
    | "(r + 50) div 32 = 7" | "(r + 50) div 32 = 8" | "(r + 50) div 32 = 9"
    | "(r + 50) div 32 = 10" | "(r + 50) div 32 = 11" | "(r + 50) div 32 = 12"
    by blast
  then show ?thesis
  proof cases
    case 1 then show ?thesis using assms
      by (simp add: Let_def DAYS_BEFORE_MONTH_def DAYS_IN_MONTH_def; arith)
  next
    case 2 then show ?thesis using assms
      by (simp add: Let_def DAYS_BEFORE_MONTH_def DAYS_IN_MONTH_def; arith)
  next
    case 3 then show ?thesis using assms
      by (simp add: Let_def DAYS_BEFORE_MONTH_def DAYS_IN_MONTH_def; arith)
  next
    case 4 then show ?thesis using assms
      by (simp add: Let_def DAYS_BEFORE_MONTH_def DAYS_IN_MONTH_def; arith)
  next
    case 5 then show ?thesis using assms
      by (simp add: Let_def DAYS_BEFORE_MONTH_def DAYS_IN_MONTH_def; arith)
  next
    case 6 then show ?thesis using assms
      by (simp add: Let_def DAYS_BEFORE_MONTH_def DAYS_IN_MONTH_def; arith)
  next
    case 7 then show ?thesis using assms
      by (simp add: Let_def DAYS_BEFORE_MONTH_def DAYS_IN_MONTH_def; arith)
  next
    case 8 then show ?thesis using assms
      by (simp add: Let_def DAYS_BEFORE_MONTH_def DAYS_IN_MONTH_def; arith)
  next
    case 9 then show ?thesis using assms
      by (simp add: Let_def DAYS_BEFORE_MONTH_def DAYS_IN_MONTH_def; arith)
  next
    case 10 then show ?thesis using assms
      by (simp add: Let_def DAYS_BEFORE_MONTH_def DAYS_IN_MONTH_def; arith)
  next
    case 11 then show ?thesis using assms
      by (simp add: Let_def DAYS_BEFORE_MONTH_def DAYS_IN_MONTH_def; arith)
  next
    case 12 then show ?thesis using assms
      by (simp add: Let_def DAYS_BEFORE_MONTH_def DAYS_IN_MONTH_def; arith)
  qed
qed

lemma toordinal_fromordinal:
  assumes "1 \<le> n"
  shows "toordinal (fromordinal n) = n"
proof -
  define q400 where "q400 = (n - 1) div 146097"
  define r400 where "r400 = (n - 1) mod 146097"
  define q100 where "q100 = r400 div 36524"
  define r100 where "r100 = r400 mod 36524"
  define q4 where "q4 = r100 div 1461"
  define r4 where "r4 = r100 mod 1461"
  define q1 where "q1 = r4 div 365"
  define r1 where "r1 = r4 mod 365"
  define Y where "Y = q400 * 400 + 1 + q100 * 100 + q4 * 4 + q1"
  define leapyear where "leapyear = (q1 = 3 \<and> (q4 \<noteq> 24 \<or> q100 = 3))"
  have e400: "n - 1 = 146097 * q400 + r400" and b400: "0 \<le> r400" "r400 < 146097"
    by (simp_all add: q400_def r400_def)
  have e100: "r400 = 36524 * q100 + r100" and b100: "0 \<le> r100" "r100 < 36524"
    by (simp_all add: q100_def r100_def)
  have e4: "r100 = 1461 * q4 + r4" and b4: "0 \<le> r4" "r4 < 1461"
    by (simp_all add: q4_def r4_def)
  have e1: "r4 = 365 * q1 + r1" and b1: "0 \<le> r1" "r1 < 365"
    by (simp_all add: q1_def r1_def)
  have c100: "0 \<le> q100" "q100 \<le> 4"
    using quot_bounds(1) [OF b400] by (simp_all add: q100_def)
  have c4: "0 \<le> q4" "q4 \<le> 24"
    using quot_bounds(2) [OF b100] by (simp_all add: q4_def)
  have c1: "0 \<le> q1" "q1 \<le> 4"
    using quot_bounds(3) [OF b4] by (simp_all add: q1_def)
  have F: "fromordinal n =
     (if q1 = 4 \<or> q100 = 4 then \<lparr>year = Y - 1, month = 12, day = 31\<rparr>
      else
        let m = (r1 + 50) div 32;
            preceding = DAYS_BEFORE_MONTH ! nat (m - 1) + (if m > 2 \<and> leapyear then 1 else 0)
        in if preceding > r1
           then let m' = m - 1;
                    preceding' = preceding -
                      (DAYS_IN_MONTH ! nat (m' - 1) + (if m' = 2 \<and> leapyear then 1 else 0))
                in \<lparr>year = Y, month = m', day = r1 - preceding' + 1\<rparr>
           else \<lparr>year = Y, month = m, day = r1 - preceding + 1\<rparr>)"
    unfolding fromordinal_def Let_def Y_def leapyear_def r1_def q1_def r4_def q4_def r100_def
      q100_def r400_def q400_def
    by (rule refl)
  show ?thesis
  proof (cases "q100 = 4")
    case True
    with e100 b400 b100 have "r100 = 0" by simp
    then have z: "q4 = 0" "r4 = 0" "q1 = 0" "r1 = 0"
      by (simp_all add: q4_def r4_def q1_def r1_def)
    have Y1: "Y - 1 = 400 * q400 + 100 * 3 + 4 * 24 + 3 + 1"
      using True z by (simp add: Y_def)
    have dby: "days_before_year (Y - 1) = 146097 * q400 + 36524 * 3 + 1461 * 24 + 365 * 3"
      unfolding Y1 by (rule dby_decomp) simp_all
    have leap: "is_leap (Y - 1)"
      unfolding Y1 by (subst is_leap_decomp) simp_all
    have n: "n = 146097 * q400 + 146097"
      using e400 e100 True \<open>r100 = 0\<close> by simp
    have "toordinal (fromordinal n) = 146097 * q400 + 146097"
      using True by (simp add: F toordinal_def dby leap days_before_month_def DAYS_BEFORE_MONTH_def)
    with n show ?thesis by simp
  next
    case q100: False
    with c100 have q100b: "q100 \<le> 3" by simp
    show ?thesis
    proof (cases "q1 = 4")
      case True
      with e1 b4 b1 have r1: "r1 = 0" by simp
      have q4b: "q4 \<le> 23"
        using e4 e1 True r1 b100 by simp
      have Y1: "Y - 1 = 400 * q400 + 100 * q100 + 4 * q4 + 3 + 1"
        using True by (simp add: Y_def)
      have dby: "days_before_year (Y - 1) = 146097 * q400 + 36524 * q100 + 1461 * q4 + 365 * 3"
        unfolding Y1 using c100 q100b c4 by (intro dby_decomp) simp_all
      have "is_leap (Y - 1) \<longleftrightarrow> 3 = (3::int) \<and> (q4 \<noteq> 24 \<or> q100 = 3)"
        unfolding Y1 using c100 q100b c4 by (intro is_leap_decomp) simp_all
      with q4b have leap: "is_leap (Y - 1)" by simp
      have n: "n = 146097 * q400 + 36524 * q100 + 1461 * q4 + 1461"
        using e400 e100 e4 e1 True r1 by simp
      have "toordinal (fromordinal n) = 146097 * q400 + 36524 * q100 + 1461 * q4 + 1461"
        using True by (simp add: F toordinal_def dby leap days_before_month_def DAYS_BEFORE_MONTH_def)
      with n show ?thesis by simp
    next
      case q1: False
      with c1 have q1b: "q1 \<le> 3" by simp
      have Y1: "Y = 400 * q400 + 100 * q100 + 4 * q4 + q1 + 1"
        by (simp add: Y_def)
      have dby: "days_before_year Y = 146097 * q400 + 36524 * q100 + 1461 * q4 + 365 * q1"
        unfolding Y1 using c100 q100b c4 c1 q1b by (intro dby_decomp) simp_all
      have leap: "is_leap Y \<longleftrightarrow> leapyear"
        unfolding Y1 leapyear_def using c100 q100b c4 c1 q1b by (intro is_leap_decomp) simp_all
      have r: "r1 < (if leapyear then 366 else 365)" using b1 by simp
      have n: "n = 146097 * q400 + 36524 * q100 + 1461 * q4 + 365 * q1 + r1 + 1"
        using e400 e100 e4 e1 by simp
      have "toordinal (fromordinal n) = days_before_year Y +
         (let m = (r1 + 50) div 32;
              preceding = DAYS_BEFORE_MONTH ! nat (m - 1) + (if m > 2 \<and> leapyear then 1 else 0)
          in if preceding > r1
             then let m' = m - 1;
                      preceding' = preceding -
                        (DAYS_IN_MONTH ! nat (m' - 1) + (if m' = 2 \<and> leapyear then 1 else 0))
                  in DAYS_BEFORE_MONTH ! nat (m' - 1) + (if m' > 2 \<and> leapyear then 1 else 0)
                       + (r1 - preceding' + 1)
             else DAYS_BEFORE_MONTH ! nat (m - 1) + (if m > 2 \<and> leapyear then 1 else 0)
                    + (r1 - preceding + 1))"
        using q100 q1 by (simp add: F toordinal_def days_before_month_def leap Let_def)
      also have "\<dots> = days_before_year Y + (r1 + 1)"
        by (simp only: month_day_sum [OF b1(1) r])
      finally show ?thesis using dby n by simp
    qed
  qed
qed

lemma date_sub_days_between:
  assumes "date_sub_days today k = Inr d"
  shows "days_between today d = k"
proof -
  from assms have pos: "0 < toordinal today - k" and d: "d = fromordinal (toordinal today - k)"
    by (auto simp: date_sub_days_def Let_def split: if_splits)
  from pos have "1 \<le> toordinal today - k" by simp
  from toordinal_fromordinal [OF this] d show ?thesis
    by (simp add: days_between_def)
qed


























section \<open>Properties of the retention policy\<close>

lemma keep_week_no_tiers:
  assumes "self_week f = NO_VALUE" "self_month f = NO_VALUE" "self_year f = NO_VALUE"
  shows "keep_week f today d = Inr False"
  using assms
  by (simp add: keep_week_def keep_month_def keep_year_def NO_VALUE_def ALL_VALUE_def)

lemma should_keep_day_only:
  "should_keep \<lparr>self_day = N, self_week = NO_VALUE, self_month = NO_VALUE, self_year = NO_VALUE\<rparr>
     today d = Inr (N = ALL_VALUE \<or> N \<noteq> NO_VALUE \<and> days_between today d + 1 \<le> N)"
proof -
  let ?f = "\<lparr>self_day = N, self_week = NO_VALUE, self_month = NO_VALUE, self_year = NO_VALUE\<rparr>"
  have "keep_week ?f today d = Inr False"
    by (rule keep_week_no_tiers) simp_all
  then show ?thesis
    by (simp add: should_keep_def)
qed

text \<open>
  C1. With the week, month and year tiers at NONE and the day tier at a positive \<open>N\<close>, the
  snapshot dated \<open>k\<close> days before the reference date (\<^verbatim>\<open>reference_date - timedelta(days=k)\<close>,
  for \<open>k \<ge> 0\<close>) is kept for every \<open>k\<close> from \<open>0\<close> to \<open>N - 1\<close> and is not kept for \<open>k = N\<close>.
\<close>

theorem should_keep_day_tier:
  assumes "0 < N" and "0 \<le> k" and "date_sub_days today k = Inr d"
  shows "(k \<le> N - 1 \<longrightarrow>
            should_keep \<lparr>self_day = N, self_week = NO_VALUE, self_month = NO_VALUE,
                         self_year = NO_VALUE\<rparr> today d = Inr True)
       \<and> (k = N \<longrightarrow>
            should_keep \<lparr>self_day = N, self_week = NO_VALUE, self_month = NO_VALUE,
                         self_year = NO_VALUE\<rparr> today d = Inr False)"
proof -
  have dk: "days_between today d = k"
    using assms(3) by (rule date_sub_days_between)
  have "should_keep \<lparr>self_day = N, self_week = NO_VALUE, self_month = NO_VALUE,
      self_year = NO_VALUE\<rparr> today d = Inr (N = ALL_VALUE \<or> N \<noteq> NO_VALUE \<and> k + 1 \<le> N)"
    unfolding dk [symmetric] by (rule should_keep_day_only)
  then show ?thesis
    using assms(1) by (simp add: ALL_VALUE_def NO_VALUE_def)
qed

theorem should_keep_day_tier_witness:
  "date_sub_days \<lparr>year = 2024, month = 3, day = 2\<rparr> 2 = Inr \<lparr>year = 2024, month = 2, day = 29\<rparr>
   \<and> should_keep \<lparr>self_day = 3, self_week = NO_VALUE, self_month = NO_VALUE, self_year = NO_VALUE\<rparr>
      \<lparr>year = 2024, month = 3, day = 2\<rparr> \<lparr>year = 2024, month = 2, day = 29\<rparr> = Inr True
   \<and> date_sub_days \<lparr>year = 2024, month = 3, day = 2\<rparr> 3 = Inr \<lparr>year = 2024, month = 2, day = 28\<rparr>
   \<and> should_keep \<lparr>self_day = 3, self_week = NO_VALUE, self_month = NO_VALUE, self_year = NO_VALUE\<rparr>
      \<lparr>year = 2024, month = 3, day = 2\<rparr> \<lparr>year = 2024, month = 2, day = 28\<rparr> = Inr False"
proof -
  have k2: "date_sub_days \<lparr>year = 2024, month = 3, day = 2\<rparr> 2
      = Inr \<lparr>year = 2024, month = 2, day = 29\<rparr>"
    by (simp add: date_sub_days_def toordinal_def days_before_year_def days_before_month_def
        DAYS_BEFORE_MONTH_def DAYS_IN_MONTH_def is_leap_def MAXORDINAL_def fromordinal_def Let_def)
  have k3: "date_sub_days \<lparr>year = 2024, month = 3, day = 2\<rparr> 3
      = Inr \<lparr>year = 2024, month = 2, day = 28\<rparr>"
    by (simp add: date_sub_days_def toordinal_def days_before_year_def days_before_month_def
        DAYS_BEFORE_MONTH_def DAYS_IN_MONTH_def is_leap_def MAXORDINAL_def fromordinal_def Let_def)
  have pos: "(0::int) < 3" and nn2: "(0::int) \<le> 2" and nn3: "(0::int) \<le> 3" by simp_all
  show ?thesis
    using should_keep_day_tier [OF pos nn2 k2] should_keep_day_tier [OF pos nn3 k3] k2 k3 by simp
qed

lemma should_save_empty: "is_empty (freq s) \<Longrightarrow> should_save today s = Inr False"
proof -
  assume "is_empty (freq s)"
  then have tiers: "self_day (freq s) = NO_VALUE" "self_week (freq s) = NO_VALUE"
      "self_month (freq s) = NO_VALUE" "self_year (freq s) = NO_VALUE"
    by (simp_all add: is_empty_def)
  have "keep_week (freq s) today today = Inr False"
    using tiers by (intro keep_week_no_tiers)
  then show "should_save today s = Inr False"
    using tiers by (simp add: should_save_def should_keep_def ALL_VALUE_def NO_VALUE_def)
qed








section \<open>Dictionaries as item lists\<close>

lemma map_fst_dict_set:
  "map fst (dict_set d k v) = (if k \<in> set (map fst d) then map fst d else map fst d @ [k])"
  by (induction d) force+

lemma keys_dict_set: "dict_keys (dict_set d k v) = insert k (dict_keys d)"
  using map_fst_dict_set [of d k v] by (auto simp: dict_keys_def simp flip: set_map)

lemma map_of_dict_set: "map_of (dict_set d k v) = (map_of d)(k \<mapsto> v)"
  by (induction d) auto

lemma distinct_dict_set: "distinct (map fst d) \<Longrightarrow> distinct (map fst (dict_set d k v))"
  by (simp add: map_fst_dict_set)

lemma not_key_iff: "k \<notin> dict_keys d \<longleftrightarrow> map_of d k = None"
  by (simp add: dict_keys_def map_of_eq_None_iff)

section \<open>Properties of \<^verbatim>\<open>deep_merge\<close>\<close>

lemma keys_merge_items: "dict_keys (merge_items d e) = dict_keys d \<union> dict_keys e"
proof (induction e arbitrary: d)
  case Nil
  then show ?case by (simp add: dict_keys_def)
next
  case (Cons a e)
  obtain key val where a: "a = (key, val)" by (cases a)
  show ?case unfolding a by (simp add: Cons.IH keys_dict_set) (simp add: dict_keys_def)
qed

lemma map_of_merge_items:
  "distinct (map fst e) \<Longrightarrow>
   map_of (merge_items d e) k =
     (case map_of e k of
        None \<Rightarrow> map_of d k
      | Some v \<Rightarrow> (case map_of d k of None \<Rightarrow> Some v | Some old \<Rightarrow> Some (deep_merge old v)))"
proof (induction e arbitrary: d)
  case Nil
  then show ?case by simp
next
  case (Cons a e)
  obtain key val where a: "a = (key, val)" by (cases a)
  have notin: "map_of e key = None"
    using Cons.prems a by (simp add: map_of_eq_None_iff)
  show ?case
    using Cons a notin by (auto simp: map_of_dict_set split: option.splits)
qed

text \<open>
  C4. Merging two dictionaries gives a dictionary whose keys are the keys of both; a key of
  both carries the merge of its two values, a key of one carries its value there. Merging two
  sequences concatenates them. Merging a dictionary and a sequence, in either order, gives
  the sequence with the dictionary appended. A primitive and a dictionary, in either order,
  give the two-element sequence of the old and the new value. The function is total: no case
  raises.
\<close>

theorem deep_merge_rules:
  assumes "distinct (map fst e)"
  shows "deep_merge (Mapping d) (Mapping e) = Mapping (merge_items d e)
     \<and> dict_keys (merge_items d e) = dict_keys d \<union> dict_keys e
     \<and> (\<forall>k. map_of (merge_items d e) k =
            (case map_of e k of
               None \<Rightarrow> map_of d k
             | Some v \<Rightarrow>
                 (case map_of d k of None \<Rightarrow> Some v | Some old \<Rightarrow> Some (deep_merge old v))))
     \<and> deep_merge (Seq xs) (Seq ys) = Seq (xs @ ys)
     \<and> deep_merge (Mapping d) (Seq ys) = Seq (ys @ [Mapping d])
     \<and> deep_merge (Seq xs) (Mapping e) = Seq (xs @ [Mapping e])
     \<and> deep_merge (Scalar a) (Mapping e) = Seq [Scalar a, Mapping e]
     \<and> deep_merge (Mapping d) (Scalar b) = Seq [Mapping d, Scalar b]"
  using assms by (simp add: keys_merge_items map_of_merge_items)

theorem deep_merge_rules_witness:
  "distinct (map fst [(''a'', Mapping [(''y'', Scalar (Num 2))])])
   \<and> deep_merge (Mapping [(''a'', Mapping [(''x'', Scalar (Num 1))])])
                (Mapping [(''a'', Mapping [(''y'', Scalar (Num 2))])])
       = Mapping [(''a'', Mapping [(''x'', Scalar (Num 1)), (''y'', Scalar (Num 2))])]
   \<and> deep_merge (Seq [Scalar (Num 1), Scalar (Num 2)]) (Seq [Scalar (Num 3)])
       = Seq [Scalar (Num 1), Scalar (Num 2), Scalar (Num 3)]"
  using deep_merge_rules [of "[(''a'', Mapping [(''y'', Scalar (Num 2))])]"
      "[(''a'', Mapping [(''x'', Scalar (Num 1))])]" "[Scalar (Num 1), Scalar (Num 2)]"
      "[Scalar (Num 3)]"]
  by simp

text \<open>
  C10. \<^verbatim>\<open>None\<close> is a two-sided identity of \<^verbatim>\<open>deep_merge\<close>: merging any value with \<^verbatim>\<open>None\<close>, on
  either side, returns that value.
\<close>

theorem deep_merge_none_identity:
  "deep_merge x CNone = x \<and> deep_merge CNone x = x"
  by (cases x) simp_all

theorem deep_merge_none_identity_witness:
  "deep_merge (Mapping [(''a'', Seq [Scalar (Str ''b''), CNone])]) CNone
     = Mapping [(''a'', Seq [Scalar (Str ''b''), CNone])]
   \<and> deep_merge CNone (Mapping [(''a'', Seq [Scalar (Str ''b''), CNone])])
     = Mapping [(''a'', Seq [Scalar (Str ''b''), CNone])]"
  by (rule deep_merge_none_identity)

section \<open>Properties of the report\<close>

lemma map_of_add:
  "map_of (dict_append (dict_setdefault_empty d s) s x) k =
     (if k = s then Some (got d s @ [x]) else map_of d k)"
  by (auto simp: dict_append_def dict_setdefault_empty_def map_of_dict_set not_key_iff got_def
      split: option.splits)

lemma distinct_add:
  "distinct (map fst d) \<Longrightarrow> distinct (map fst (dict_append (dict_setdefault_empty d s) s x))"
  by (simp add: dict_append_def dict_setdefault_empty_def distinct_dict_set)

lemma map_of_append_entries:
  "map_of (append_entries lvl result server errors) k =
     (if k = server \<and> errors \<noteq> []
      then Some (got result server @ map (\<lambda>e. \<lparr>level = lvl, info = e\<rparr>) errors)
      else map_of result k)"
  by (induction errors arbitrary: result)
     (auto simp: dict_append_def map_of_dict_set got_def split: option.splits)

lemma map_of_server_entries:
  "map_of (append_entries lvl (dict_setdefault_empty result server) server errors) k =
     (if k = server
      then Some (got result server @ map (\<lambda>e. \<lparr>level = lvl, info = e\<rparr>) errors)
      else map_of result k)"
  by (auto simp: map_of_append_entries dict_setdefault_empty_def map_of_dict_set not_key_iff got_def
      split: option.splits)

lemma map_of_by_server_items:
  "distinct (map fst items) \<Longrightarrow>
   map_of (by_server_items lvl result items) k =
     (case map_of items k of
        None \<Rightarrow> map_of result k
      | Some errs \<Rightarrow> Some (got result k @ map (\<lambda>e. \<lparr>level = lvl, info = e\<rparr>) errs))"
proof (induction items arbitrary: result)
  case Nil
  then show ?case by simp
next
  case (Cons it items)
  obtain server errors where it: "it = (server, errors)" by (cases it)
  have notin: "map_of items server = None"
    using Cons.prems it by (simp add: map_of_eq_None_iff)
  have d: "distinct (map fst items)" using Cons.prems by simp
  show ?case
    unfolding it using notin
    by (auto simp: Cons.IH [OF d] map_of_server_entries got_def split: option.splits)
qed

lemma issues_after:
  "map_of (server_issues (foldl report_step r calls)) s =
     (if issues_for s calls = [] then map_of (server_issues r) s
      else Some (got (server_issues r) s @ issues_for s calls))"
proof (induction calls arbitrary: r)
  case Nil
  then show ?case by simp
next
  case (Cons c calls)
  show ?case
    by (cases c)
       (auto simp: Cons.IH add_issue_def add_warning_def add_success_def map_of_add got_def)
qed

lemma warnings_after:
  "map_of (server_warnings (foldl report_step r calls)) s =
     (if warnings_for s calls = [] then map_of (server_warnings r) s
      else Some (got (server_warnings r) s @ warnings_for s calls))"
proof (induction calls arbitrary: r)
  case Nil
  then show ?case by simp
next
  case (Cons c calls)
  show ?case
    by (cases c)
       (auto simp: Cons.IH add_issue_def add_warning_def add_success_def map_of_add got_def)
qed

lemma successes_after:
  "map_of (server_success (foldl report_step r calls)) s =
     (if successes_for s calls = [] then map_of (server_success r) s
      else Some (got (server_success r) s @ successes_for s calls))"
proof (induction calls arbitrary: r)
  case Nil
  then show ?case by simp
next
  case (Cons c calls)
  show ?case
    by (cases c)
       (auto simp: Cons.IH add_issue_def add_warning_def add_success_def map_of_add got_def)
qed

lemma wf_report_step: "wf_report r \<Longrightarrow> wf_report (report_step r c)"
  by (cases c) (auto simp: wf_report_def add_issue_def add_warning_def add_success_def distinct_add)

lemma wf_report_foldl: "wf_report r \<Longrightarrow> wf_report (foldl report_step r calls)"
  by (induction calls arbitrary: r) (auto simp: wf_report_step)

lemma wf_report_after: "wf_report (report_after calls)"
  unfolding report_after_def by (rule wf_report_foldl) (simp add: wf_report_def Report_init_def)

lemma no_calls_iff:
  "s \<notin> call_server ` set calls \<longleftrightarrow>
     issues_for s calls = [] \<and> warnings_for s calls = [] \<and> successes_for s calls = []"
proof (induction calls)
  case Nil
  then show ?case by simp
next
  case (Cons c calls)
  then show ?case by (cases c) auto
qed

text \<open>
  C9. After any sequence of \<^verbatim>\<open>add_issue\<close>, \<^verbatim>\<open>add_warning\<close> and \<^verbatim>\<open>add_success\<close> calls on a new
  report, \<^verbatim>\<open>by_server\<close> maps a server that one of the calls named to all its entries: its
  issues first, then its warnings, then its successes, each group in call order, whatever the
  interleaving of the calls. Each entry carries the level of its category; the level strings of
  the source are \<^verbatim>\<open>error\<close>, \<^verbatim>\<open>warning\<close> and, for a success, \<^verbatim>\<open>server\<close>. A server that no call named
  is not a key.
\<close>

theorem by_server_order:
  "map_of (by_server (report_after calls)) s =
     (if s \<in> call_server ` set calls
      then Some (map (\<lambda>m. \<lparr>level = ''error'', info = m\<rparr>) (issues_for s calls)
               @ map (\<lambda>m. \<lparr>level = ''warning'', info = m\<rparr>) (warnings_for s calls)
               @ map (\<lambda>m. \<lparr>level = ''server'', info = m\<rparr>) (successes_for s calls))
      else None)"
proof -
  let ?r = "report_after calls"
  have wf: "wf_report ?r" by (rule wf_report_after)
  have i: "map_of (server_issues ?r) s =
      (if issues_for s calls = [] then None else Some (issues_for s calls))"
    by (simp add: report_after_def issues_after Report_init_def got_def)
  have w: "map_of (server_warnings ?r) s =
      (if warnings_for s calls = [] then None else Some (warnings_for s calls))"
    by (simp add: report_after_def warnings_after Report_init_def got_def)
  have u: "map_of (server_success ?r) s =
      (if successes_for s calls = [] then None else Some (successes_for s calls))"
    by (simp add: report_after_def successes_after Report_init_def got_def)
  have d1: "distinct (map fst (server_issues ?r))"
    and d2: "distinct (map fst (server_warnings ?r))"
    and d3: "distinct (map fst (server_success ?r))"
    using wf by (simp_all add: wf_report_def)
  show ?thesis
    unfolding by_server_def
    by (simp add: map_of_by_server_items [OF d1] map_of_by_server_items [OF d2]
        map_of_by_server_items [OF d3] i w u got_def no_calls_iff)
qed

theorem by_server_order_witness:
  "map_of (by_server (report_after
      [AddSuccess ''a'' ''s1'', AddIssue ''b'' ''i1'', AddWarning ''a'' ''w1'',
       AddIssue ''a'' ''i2'', AddSuccess ''a'' ''s2''])) ''a''
   = Some [\<lparr>level = ''error'', info = ''i2''\<rparr>, \<lparr>level = ''warning'', info = ''w1''\<rparr>,
           \<lparr>level = ''server'', info = ''s1''\<rparr>, \<lparr>level = ''server'', info = ''s2''\<rparr>]"
  using by_server_order [of "[AddSuccess ''a'' ''s1'', AddIssue ''b'' ''i1'', AddWarning ''a'' ''w1'',
       AddIssue ''a'' ''i2'', AddSuccess ''a'' ''s2'']" "''a''"]
  by simp

section \<open>Properties of the write test cache\<close>

lemma cached_cases:
  "cached w k =
     (case k of FolderProbe f \<Rightarrow> folder_cache w f | GlacierProbe v \<Rightarrow> glacier_vault_cache w v)"
  by (cases k) (simp_all add: is_folder_success_def is_glacier_success_def)

lemma do_check_hit:
  assumes "cached w (probe_key c) = Some b"
  shows "snd (do_check c outcome w) = w \<and> (b \<longrightarrow> fst (do_check c outcome w) = [])
     \<and> (\<not> b \<longrightarrow> length (fst (do_check c outcome w)) = 1)"
  using assms
  by (cases c rule: probe_key.cases)
     (auto simp: check_folder_writable_def check_glacier_access_def)

lemma do_check_miss:
  assumes "cached w (probe_key c) = None"
  shows "probes (snd (do_check c outcome w)) = probes w @ [probe_key c]
     \<and> (\<forall>k. cached (snd (do_check c outcome w)) k =
            (if k = probe_key c then Some (outcome = None) else cached w k))"
  using assms
  by (cases c rule: probe_key.cases)
     (auto simp: check_folder_writable_def check_glacier_access_def cached_cases
        set_folder_success_def set_glacier_success_def is_folder_success_def
        is_glacier_success_def Let_def split: option.splits probe.splits)

lemma cache_inv_step: "cache_inv w \<Longrightarrow> cache_inv (snd (do_check c outcome w))"
proof (cases "cached w (probe_key c)")
  case None
  assume inv: "cache_inv w"
  from do_check_miss [OF None, of outcome] inv None show ?thesis
    by (auto simp: cache_inv_def)
next
  case (Some b)
  assume inv: "cache_inv w"
  with do_check_hit [OF Some, of outcome] show ?thesis by simp
qed

lemma cache_inv_run: "cache_inv w \<Longrightarrow> cache_inv (run_checks cs w)"
  by (induction cs arbitrary: w) (auto simp: cache_inv_step)

lemma cached_after_run:
  "cached (run_checks cs w) k =
     (case cached w k of Some b \<Rightarrow> Some b | None \<Rightarrow> first_outcome k cs)"
proof (induction cs arbitrary: w)
  case Nil
  then show ?case by (simp split: option.splits)
next
  case (Cons a cs)
  obtain c outcome where a: "a = (c, outcome)" by (cases a)
  show ?case
  proof (cases "cached w (probe_key c)")
    case None
    from do_check_miss [OF None, of outcome] show ?thesis
      unfolding a using None by (auto simp: Cons.IH split: option.splits)
  next
    case (Some b')
    from do_check_hit [OF Some, of outcome] show ?thesis
      unfolding a using Some by (auto simp: Cons.IH split: option.splits)
  qed
qed

lemma first_outcome_Some:
  "k \<in> probe_key ` fst ` set cs \<Longrightarrow> \<exists>b. first_outcome k cs = Some b"
proof (induction cs)
  case Nil
  then show ?case by simp
next
  case (Cons a cs)
  obtain c outcome where a: "a = (c, outcome)" by (cases a)
  show ?case
  proof (cases "probe_key c = k")
    case True
    then show ?thesis by (simp add: a)
  next
    case False
    with Cons.prems a have "k \<in> probe_key ` fst ` set cs" by auto
    with Cons.IH False show ?thesis by (simp add: a)
  qed
qed

text \<open>
  C8. In a run of writability checks that starts with the empty cache, no key (folder path or
  vault name) is write-tested twice, however many storages and actions check it. A check on a
  key that an earlier check of the run has used performs no write test and leaves the cache
  as it is; it returns the empty list when the write test of the first check on that key
  succeeded and exactly one diagnostic string when it failed.
\<close>

theorem write_test_once:
  "distinct (probes (run_checks cs init_world))
   \<and> (\<forall>pre c outcome post.
        cs = pre @ (c, outcome) # post \<and> probe_key c \<in> probe_key ` fst ` set pre \<longrightarrow>
        (\<exists>b. first_outcome (probe_key c) pre = Some b
           \<and> do_check c outcome (run_checks pre init_world) =
               (fst (do_check c outcome (run_checks pre init_world)), run_checks pre init_world)
           \<and> (b \<longrightarrow> fst (do_check c outcome (run_checks pre init_world)) = [])
           \<and> (\<not> b \<longrightarrow> length (fst (do_check c outcome (run_checks pre init_world))) = 1)))"
proof (intro conjI allI impI)
  have "cache_inv init_world"
    by (simp add: cache_inv_def init_world_def cached_cases split: probe.splits)
  then show "distinct (probes (run_checks cs init_world))"
    using cache_inv_run by (auto simp: cache_inv_def)
next
  fix pre c outcome post
  assume h: "cs = pre @ (c, outcome) # post \<and> probe_key c \<in> probe_key ` fst ` set pre"
  then obtain b where b: "first_outcome (probe_key c) pre = Some b"
    using first_outcome_Some by blast
  have "cached init_world (probe_key c) = None"
    by (simp add: init_world_def cached_cases split: probe.splits)
  then have "cached (run_checks pre init_world) (probe_key c) = Some b"
    using b by (simp add: cached_after_run)
  from do_check_hit [OF this, of outcome] b
  show "\<exists>b. first_outcome (probe_key c) pre = Some b
           \<and> do_check c outcome (run_checks pre init_world) =
               (fst (do_check c outcome (run_checks pre init_world)), run_checks pre init_world)
           \<and> (b \<longrightarrow> fst (do_check c outcome (run_checks pre init_world)) = [])
           \<and> (\<not> b \<longrightarrow> length (fst (do_check c outcome (run_checks pre init_world))) = 1)"
    by (auto simp: prod_eq_iff)
qed

theorem write_test_once_witness:
  "distinct (probes (run_checks
      [(CheckFolder ''/backup'', Some ''denied''),
       (CheckStorage (LocalFolderStorage
          \<lparr>self_day = 7, self_week = 0, self_month = 0, self_year = 0\<rparr> ''/backup''), None),
       (CheckStorage (GlacierStorage
          \<lparr>self_day = 7, self_week = 0, self_month = 0, self_year = 0\<rparr> ''eu-west-1:vault''
          ''/root/.glacier_index''), None)] init_world))
   \<and> first_outcome (FolderProbe ''/backup'') [(CheckFolder ''/backup'', Some ''denied'')] = Some False
   \<and> length (fst (do_check (CheckStorage (LocalFolderStorage
          \<lparr>self_day = 7, self_week = 0, self_month = 0, self_year = 0\<rparr> ''/backup'')) None
        (run_checks [(CheckFolder ''/backup'', Some ''denied'')] init_world))) = 1"
proof -
  let ?c1 = "(CheckFolder ''/backup'', Some ''denied'')"
  let ?c2 = "CheckStorage (LocalFolderStorage
          \<lparr>self_day = 7, self_week = 0, self_month = 0, self_year = 0\<rparr> ''/backup'')"
  let ?c3 = "(CheckStorage (GlacierStorage
          \<lparr>self_day = 7, self_week = 0, self_month = 0, self_year = 0\<rparr> ''eu-west-1:vault''
          ''/root/.glacier_index''), None :: string option)"
  let ?cs = "[?c1, (?c2, None), ?c3]"
  have split: "?cs = [?c1] @ (?c2, None) # [?c3] \<and> probe_key ?c2 \<in> probe_key ` fst ` set [?c1]"
    by simp
  have f: "first_outcome (probe_key ?c2) [?c1] = Some False" by simp
  from write_test_once [of ?cs]
  have d: "distinct (probes (run_checks ?cs init_world))"
    and a: "\<forall>pre c outcome post.
        ?cs = pre @ (c, outcome) # post \<and> probe_key c \<in> probe_key ` fst ` set pre \<longrightarrow>
        (\<exists>b. first_outcome (probe_key c) pre = Some b
           \<and> do_check c outcome (run_checks pre init_world) =
               (fst (do_check c outcome (run_checks pre init_world)), run_checks pre init_world)
           \<and> (b \<longrightarrow> fst (do_check c outcome (run_checks pre init_world)) = [])
           \<and> (\<not> b \<longrightarrow> length (fst (do_check c outcome (run_checks pre init_world))) = 1))"
    by blast+
  from a split obtain b where
    "first_outcome (probe_key ?c2) [?c1] = Some b"
    "\<not> b \<longrightarrow> length (fst (do_check ?c2 None (run_checks [?c1] init_world))) = 1"
    by blast
  with f have "length (fst (do_check ?c2 None (run_checks [?c1] init_world))) = 1" by simp
  with d f show ?thesis by simp
qed

section \<open>Properties of \<^verbatim>\<open>run_backup\<close>\<close>

lemma save_loop_prefix:
  "list_all (passes today sv) pre \<Longrightarrow>
   save_loop today sv acc (pre @ rest) = save_loop today sv (acc @ to_save today pre) rest"
proof (induction pre arbitrary: acc)
  case Nil
  then show ?case by (simp add: to_save_def)
next
  case (Cons x pre)
  from Cons.prems have x: "passes today sv x" and pre: "list_all (passes today sv) pre"
    by simp_all
  from x show ?case
    unfolding passes_def
  proof
    assume "should_save today x = Inr False"
    then show ?thesis using Cons.IH [OF pre] by (simp add: to_save_def)
  next
    assume "should_save today x = Inr True \<and> sv x = None"
    then show ?thesis using Cons.IH [OF pre] by (simp add: to_save_def)
  qed
qed

lemma save_loop_pass:
  "list_all (passes today sv) ss \<Longrightarrow> save_loop today sv acc ss = (acc @ to_save today ss, Inr ())"
  using save_loop_prefix [of today sv ss acc "[]"] by simp

lemma should_save_examples:
  "should_save today local_store = Inr True" "should_save today glacier_store = Inr True"
  by (simp_all add: should_save_def should_keep_def local_store_def glacier_store_def keep_all_def
      ALL_VALUE_def)

lemma should_save_far_store:
  "should_save \<lparr>year = 2024, month = 1, day = 1\<rparr> far_store = Inl ValueError"
  by (simp add: should_save_def should_keep_def far_store_def keep_week_def keep_month_def
      keep_year_def mk_date_def valid_date_def MINYEAR_def ALL_VALUE_def NO_VALUE_def
      days_between_def)

lemma stores_differ: "local_store \<noteq> glacier_store" "glacier_store \<noteq> local_store"
  by (simp_all add: local_store_def glacier_store_def)

text \<open>
  C3 (amended). After staging and packaging succeeded, \<^verbatim>\<open>run_backup\<close> goes through the
  storages of the action in the order of the storage list and calls \<^verbatim>\<open>save\<close> on each storage
  whose \<^verbatim>\<open>should_save()\<close> is true, until the first storage whose \<^verbatim>\<open>should_save()\<close> or \<^verbatim>\<open>save\<close>
  raises. That exception leaves \<^verbatim>\<open>run_backup\<close> at once and the storages after it are not tried.
  When neither raises on any storage, \<^verbatim>\<open>save\<close> is called on every storage whose
  \<^verbatim>\<open>should_save()\<close> is true and \<^verbatim>\<open>run_backup\<close> returns normally.
\<close>

theorem run_backup_saves:
  "(list_all (passes today (\<lambda>s. save s (full_name a) (archive_ext (kind a)))) (storage_list a) \<longrightarrow>
      run_backup today None save a = (to_save today (storage_list a), Inr ()))
   \<and> (\<forall>pre s post e.
        storage_list a = pre @ s # post
        \<and> list_all (passes today (\<lambda>s. save s (full_name a) (archive_ext (kind a)))) pre
        \<and> should_save today s = Inr True
        \<and> save s (full_name a) (archive_ext (kind a)) = Some e \<longrightarrow>
        run_backup today None save a = (to_save today pre @ [s], Inl e))
   \<and> (\<forall>pre s post e.
        storage_list a = pre @ s # post
        \<and> list_all (passes today (\<lambda>s. save s (full_name a) (archive_ext (kind a)))) pre
        \<and> should_save today s = Inl e \<longrightarrow>
        run_backup today None save a = (to_save today pre, Inl e))"
proof (intro conjI allI impI)
  assume "list_all (passes today (\<lambda>s. save s (full_name a) (archive_ext (kind a)))) (storage_list a)"
  from save_loop_pass [OF this, of "[]"]
  show "run_backup today None save a = (to_save today (storage_list a), Inr ())"
    by (simp add: run_backup_def)
next
  fix pre s post e
  assume h: "storage_list a = pre @ s # post
        \<and> list_all (passes today (\<lambda>s. save s (full_name a) (archive_ext (kind a)))) pre
        \<and> should_save today s = Inr True
        \<and> save s (full_name a) (archive_ext (kind a)) = Some e"
  then have p: "list_all (passes today (\<lambda>s. save s (full_name a) (archive_ext (kind a)))) pre"
    by simp
  from save_loop_prefix [OF p, of "[]" "s # post"] h
  show "run_backup today None save a = (to_save today pre @ [s], Inl e)"
    by (simp add: run_backup_def)
next
  fix pre s post e
  assume h: "storage_list a = pre @ s # post
        \<and> list_all (passes today (\<lambda>s. save s (full_name a) (archive_ext (kind a)))) pre
        \<and> should_save today s = Inl e"
  then have p: "list_all (passes today (\<lambda>s. save s (full_name a) (archive_ext (kind a)))) pre"
    by simp
  from save_loop_prefix [OF p, of "[]" "s # post"] h
  show "run_backup today None save a = (to_save today pre, Inl e)"
    by (simp add: run_backup_def)
qed

theorem run_backup_saves_witness:
  "run_backup \<lparr>year = 2024, month = 1, day = 1\<rparr> None all_saved web1_app
       = ([local_store, glacier_store], Inr ())
   \<and> run_backup \<lparr>year = 2024, month = 1, day = 1\<rparr> None local_fails web1_app
       = ([local_store], Inl (StandardError ''cp failed''))
   \<and> run_backup \<lparr>year = 2024, month = 1, day = 1\<rparr> None all_saved web1_three
       = ([local_store], Inl ValueError)"
proof -
  let ?today = "\<lparr>year = 2024, month = 1, day = 1\<rparr>"
  have all: "list_all (passes ?today
      (\<lambda>s. all_saved s (full_name web1_app) (archive_ext (kind web1_app)))) (storage_list web1_app)"
    by (simp add: web1_app_def passes_def should_save_examples all_saved_def)
  have ok: "run_backup ?today None all_saved web1_app = ([local_store, glacier_store], Inr ())"
    using run_backup_saves [of ?today all_saved web1_app] all
    by (simp add: to_save_def web1_app_def should_save_examples)
  have "storage_list web1_app = [] @ local_store # [glacier_store]
      \<and> list_all (passes ?today
           (\<lambda>s. local_fails s (full_name web1_app) (archive_ext (kind web1_app)))) []
      \<and> should_save ?today local_store = Inr True
      \<and> local_fails local_store (full_name web1_app) (archive_ext (kind web1_app))
           = Some (StandardError ''cp failed'')"
    by (simp add: web1_app_def should_save_examples local_fails_def)
  with run_backup_saves [of ?today local_fails web1_app]
  have "run_backup ?today None local_fails web1_app
      = (to_save ?today [] @ [local_store], Inl (StandardError ''cp failed''))"
    by blast
  then have fail: "run_backup ?today None local_fails web1_app
      = ([local_store], Inl (StandardError ''cp failed''))"
    by (simp add: to_save_def)
  have "storage_list web1_three = [local_store] @ far_store # [glacier_store]
      \<and> list_all (passes ?today
           (\<lambda>s. all_saved s (full_name web1_three) (archive_ext (kind web1_three)))) [local_store]
      \<and> should_save ?today far_store = Inl ValueError"
    by (simp add: web1_three_def passes_def should_save_examples should_save_far_store all_saved_def)
  with run_backup_saves [of ?today all_saved web1_three]
  have "run_backup ?today None all_saved web1_three = (to_save ?today [local_store], Inl ValueError)"
    by blast
  then have raise: "run_backup ?today None all_saved web1_three = ([local_store], Inl ValueError)"
    by (simp add: to_save_def should_save_examples)
  from ok fail raise show ?thesis by simp
qed

text \<open>
  The claim as stated fails: when the copy to the first storage fails, the second storage,
  whose \<^verbatim>\<open>should_save()\<close> is true, is never tried.
\<close>

theorem run_backup_all_storages_counterexample:
  "run_backup \<lparr>year = 2024, month = 1, day = 2\<rparr> None local_fails web1_app
       = ([local_store], Inl (StandardError ''cp failed''))
   \<and> storage_list web1_app = [local_store, glacier_store]
   \<and> should_save \<lparr>year = 2024, month = 1, day = 2\<rparr> glacier_store = Inr True
   \<and> glacier_store \<notin> set [local_store]"
  by (simp add: run_backup_def web1_app_def should_save_examples local_fails_def stores_differ)

section \<open>Properties of the uniqueness check\<close>

lemma check_other_ok: "\<not> clash i a xs \<Longrightarrow> check_other i a xs = Inr ()"
  by (induction i a xs rule: check_other.induct) (auto simp: clash_def)

lemma check_other_err: "clash i a xs \<Longrightarrow> \<exists>e. check_other i a xs = Inl e"
  by (induction i a xs rule: check_other.induct) (auto simp: clash_def split: sum.splits)

lemma check_other_config:
  "clash i a xs \<Longrightarrow> renders a \<Longrightarrow> \<forall>p\<in>set xs. renders (snd p) \<Longrightarrow>
   \<exists>msg. check_other i a xs = Inl (ConfigError msg)"
proof (induction i a xs rule: check_other.induct)
  case (1 i a)
  then show ?case by (simp add: clash_def)
next
  case (2 i a j other_action rest)
  from "2.prems"(3) have r: "\<forall>p\<in>set rest. renders (snd p)" by simp
  show ?case
  proof (cases "i = j")
    case True
    with "2.prems"(1) have "clash i a rest" by (auto simp: clash_def)
    from "2.IH"(1) [OF True this "2.prems"(2) r] True show ?thesis by simp
  next
    case ne: False
    show ?thesis
    proof (cases "full_name a = full_name other_action")
      case True
      from "2.prems"(2) obtain t where t: "to_str_action a = Inr t"
        by (auto simp: renders_def)
      from "2.prems"(3) obtain u where u: "to_str_action other_action = Inr u"
        by (auto simp: renders_def)
      from ne True t u show ?thesis by simp
    next
      case False
      with "2.prems"(1) ne have "clash i a rest" by (auto simp: clash_def)
      from "2.IH"(2) [OF ne False this "2.prems"(2) r] ne False show ?thesis by simp
    qed
  qed
qed

lemma check_each_ok:
  "\<forall>p\<in>set xs. \<not> clash (fst p) (snd p) all \<Longrightarrow> check_each all xs = Inr ()"
  by (induction all xs rule: check_each.induct) (auto simp: check_other_ok)

lemma check_each_err:
  "\<exists>p\<in>set xs. clash (fst p) (snd p) all \<Longrightarrow> \<exists>e. check_each all xs = Inl e"
proof (induction all xs rule: check_each.induct)
  case (1 actions)
  then show ?case by simp
next
  case (2 actions i a rest)
  show ?case
  proof (cases "clash i a actions")
    case True
    from check_other_err [OF this] show ?thesis by auto
  next
    case False
    then have ok: "check_other i a actions = Inr ()" by (rule check_other_ok)
    from False "2.prems" have "\<exists>p\<in>set rest. clash (fst p) (snd p) actions" by auto
    from "2.IH" [OF ok this] ok show ?thesis by simp
  qed
qed

lemma check_each_config:
  "\<exists>p\<in>set xs. clash (fst p) (snd p) all \<Longrightarrow> \<forall>p\<in>set xs. renders (snd p) \<Longrightarrow>
   \<forall>p\<in>set all. renders (snd p) \<Longrightarrow> \<exists>msg. check_each all xs = Inl (ConfigError msg)"
proof (induction all xs rule: check_each.induct)
  case (1 actions)
  then show ?case by simp
next
  case (2 actions i a rest)
  show ?case
  proof (cases "clash i a actions")
    case True
    from "2.prems"(2) have "renders a" by simp
    from check_other_config [OF True this "2.prems"(3)] show ?thesis by auto
  next
    case False
    then have ok: "check_other i a actions = Inr ()" by (rule check_other_ok)
    from False "2.prems" have c: "\<exists>p\<in>set rest. clash (fst p) (snd p) actions" by auto
    from "2.prems"(2) have r: "\<forall>p\<in>set rest. renders (snd p)" by simp
    from "2.IH" [OF ok c r "2.prems"(3)] ok show ?thesis by simp
  qed
qed
lemma no_clash_iff_distinct:
  "(\<forall>p\<in>set (enumerate 0 actions). \<not> clash (fst p) (snd p) (enumerate 0 actions))
     \<longleftrightarrow> distinct (map full_name actions)"
proof
  assume h: "\<forall>p\<in>set (enumerate 0 actions). \<not> clash (fst p) (snd p) (enumerate 0 actions)"
  show "distinct (map full_name actions)"
    unfolding distinct_conv_nth
  proof (intro allI impI)
    fix i j
    assume i: "i < length (map full_name actions)" and j: "j < length (map full_name actions)"
      and ne: "i \<noteq> j"
    have pi: "(i, actions ! i) \<in> set (enumerate 0 actions)"
      and pj: "(j, actions ! j) \<in> set (enumerate 0 actions)"
      using i j by (simp_all add: in_set_enumerate_eq)
    from h pi have "\<not> clash i (actions ! i) (enumerate 0 actions)" by force
    with pj ne have "full_name (actions ! j) \<noteq> full_name (actions ! i)"
      unfolding clash_def by force
    with i j show "map full_name actions ! i \<noteq> map full_name actions ! j" by auto
  qed
next
  assume d: "distinct (map full_name actions)"
  show "\<forall>p\<in>set (enumerate 0 actions). \<not> clash (fst p) (snd p) (enumerate 0 actions)"
  proof (intro ballI notI)
    fix p
    assume p: "p \<in> set (enumerate 0 actions)" and c: "clash (fst p) (snd p) (enumerate 0 actions)"
    from c obtain q where q: "q \<in> set (enumerate 0 actions)" "fst q \<noteq> fst p"
      "full_name (snd q) = full_name (snd p)"
      unfolding clash_def by auto
    from p q have ip: "fst p < length actions" "actions ! fst p = snd p"
      and iq: "fst q < length actions" "actions ! fst q = snd q"
      by (simp_all add: in_set_enumerate_eq)
    from d ip(1) iq(1) q(2) have "map full_name actions ! fst q \<noteq> map full_name actions ! fst p"
      unfolding distinct_conv_nth by simp
    with ip iq q(3) show False by simp
  qed
qed

lemma check_full_names_cases:
  "(distinct (map full_name actions) \<longrightarrow> check_full_names actions = Inr ())
   \<and> (\<not> distinct (map full_name actions) \<longrightarrow> (\<exists>e. check_full_names actions = Inl e))"
proof (intro conjI impI)
  assume "distinct (map full_name actions)"
  then show "check_full_names actions = Inr ()"
    unfolding check_full_names_def
    by (intro check_each_ok) (simp add: no_clash_iff_distinct)
next
  assume "\<not> distinct (map full_name actions)"
  then have "\<exists>p\<in>set (enumerate 0 actions). clash (fst p) (snd p) (enumerate 0 actions)"
    using no_clash_iff_distinct [of actions] by blast
  then show "\<exists>e. check_full_names actions = Inl e"
    unfolding check_full_names_def by (rule check_each_err)
qed

lemma snd_enumerate_in_set:
  assumes "p \<in> set (enumerate 0 xs)"
  shows "snd p \<in> set xs"
proof -
  from assms have i: "fst p < length xs" and e: "xs ! fst p = snd p"
    by (simp_all add: in_set_enumerate_eq)
  from i have "xs ! fst p \<in> set xs" by (rule nth_mem)
  with e show ?thesis by simp
qed

text \<open>
  What the check does achieve: a list with a repeated full name is never returned, and when
  every action has the fields that its text needs, the exception is the \<^verbatim>\<open>ConfigError\<close>.
\<close>

lemma load_conf_no_duplicates_returned:
  "(\<not> distinct (map full_name actions) \<longrightarrow> (\<exists>e. load_conf_finish actions reports = Inl e))
   \<and> (\<forall>acts report_targets. load_conf_finish actions reports = Inr (acts, report_targets) \<longrightarrow>
        acts = actions \<and> distinct (map full_name acts))"
  using check_full_names_cases [of actions]
  by (auto simp: load_conf_finish_def split: sum.splits)

lemma load_conf_config_error:
  assumes "\<not> distinct (map full_name actions)" and "\<forall>a\<in>set actions. renders a"
  shows "\<exists>msg. load_conf_finish actions reports = Inl (ConfigError msg)"
proof -
  from assms(1) have c: "\<exists>p\<in>set (enumerate 0 actions). clash (fst p) (snd p) (enumerate 0 actions)"
    using no_clash_iff_distinct [of actions] by blast
  from assms(2) have r: "\<forall>p\<in>set (enumerate 0 actions). renders (snd p)"
    using snd_enumerate_in_set by blast
  from check_each_config [OF c r r] show ?thesis
    by (auto simp: load_conf_finish_def check_full_names_def)
qed

text \<open>
  C5. Two \<^verbatim>\<open>files\<close> entries \<^verbatim>\<open>www\<close> of server \<^verbatim>\<open>web1\<close>, in a configuration that sets no
  \<^verbatim>\<open>dest_folder\<close>, have the same full name, and the loading leaves with \<^verbatim>\<open>TypeError\<close>, not
  with the \<^verbatim>\<open>ConfigError\<close> of the claim: the text of the first action cannot be built.
\<close>

theorem load_conf_duplicate_type_error:
  "full_name web1_www = full_name web1_www_again
   \<and> load_conf_finish [web1_www, web1_www_again] (Inr [''syslog'']) = Inl TypeError"
  by (simp add: load_conf_finish_def check_full_names_def to_str_action_def full_name_def
      web1_www_def web1_www_again_def)

theorem load_conf_duplicate_type_error_witness:
  "load_conf_finish [web1_www, web1_www_again] (Inr [''syslog'']) = Inl TypeError"
  by (rule conjunct2 [OF load_conf_duplicate_type_error])

section \<open>Properties of the archive listing\<close>

text \<open>
  C6. The claim holds of \<^verbatim>\<open>LocalFolderStorage.list_archives\<close> on the example of the
  specification, and fails of \<^verbatim>\<open>GlacierStorage.list_archives\<close>, which checks no name: an
  index entry \<^verbatim>\<open>bad_name.tgz\<close> is listed, although \<^verbatim>\<open>MemoryStorage.should_keep\<close> answers false
  for it; an entry without an underscore, such as the entry of the write test, makes the
  listing raise \<^verbatim>\<open>ValueError\<close>.
\<close>

theorem glacier_list_archives_unfiltered:
  "list_archives (\<lambda>p. True) (\<lambda>s. [''20240101_web1_app.tgz'', ''bad_name.tgz'']) glacier_store None
     = Inr [''20240101_web1_app.tgz'', ''bad_name.tgz'']
   \<and> archive_should_keep glacier_store \<lparr>year = 2024, month = 1, day = 2\<rparr> ''bad_name.tgz'' = Inr False
   \<and> list_archives (\<lambda>p. True)
       (\<lambda>s. [''20240101_web1_app.tgz'', ''bad_name.tgz'', ''20240101stray.tgz'']) glacier_store None
     = Inl ValueError
   \<and> list_archives (\<lambda>p. True) (\<lambda>s. [''backup glacier access test'']) glacier_store None
     = Inl ValueError
   \<and> list_archives (\<lambda>p. True)
       (\<lambda>s. [''20240101_web1_app.tgz'', ''bad_name.tgz'', ''20240101stray.tgz'']) local_store None
     = Inr [''/backup/20240101_web1_app.tgz'']"
  by (simp add: glacier_store_def local_store_def wanted_def archive_should_keep_def basename_def
      slice_def path_join_def re_match_digits_def is_digit_def parse_archive_date_def py_int_def
      strip_def is_space_def digit_val_def mk_date_def valid_date_def MINYEAR_def MAXYEAR_def
      days_in_month_def DAYS_IN_MONTH_def is_leap_def)

theorem glacier_list_archives_unfiltered_witness:
  "list_archives (\<lambda>p. True) (\<lambda>s. [''20240101_web1_app.tgz'', ''bad_name.tgz'']) glacier_store None
     = Inr [''20240101_web1_app.tgz'', ''bad_name.tgz'']"
  by (rule conjunct1 [OF glacier_list_archives_unfiltered])

text \<open>
  \<^verbatim>\<open>clean_archives\<close> lists with the full name of the action, which skips \<^verbatim>\<open>bad_name.tgz\<close>; a
  glacier entry outside the naming invariant whose part after the first underscore begins
  with that full name is listed, \<^verbatim>\<open>should_keep\<close> answers false for it, and it is removed.
\<close>

lemma glacier_clean_malformed:
  "list_archives (\<lambda>p. True)
       (\<lambda>s. [''20240101_web1_app.tgz'', ''bad_name.tgz'', ''x_web1_app.tgz'']) glacier_store
       (Some (full_name web1_app))
     = Inr [''20240101_web1_app.tgz'', ''x_web1_app.tgz'']
   \<and> archive_should_keep glacier_store \<lparr>year = 2024, month = 1, day = 2\<rparr> ''x_web1_app.tgz''
     = Inr False"
  by (simp add: glacier_store_def web1_app_def full_name_def wanted_def startswith_def
      archive_should_keep_def basename_def slice_def)

text \<open>
  The test of the local listing lets one more name through: \<^verbatim>\<open>$\<close> of the regular expression
  matches before a final newline and \<^verbatim>\<open>int\<close> drops it, so seven digits and a newline pass for
  an eight-digit date.
\<close>

lemma local_list_archives_newline:
  "list_archives (\<lambda>p. True) (\<lambda>s. [''2024011'' @ [CHR 0x0A] @ ''_web1_app.tgz'']) local_store None
     = Inr [''/backup/2024011'' @ [CHR 0x0A] @ ''_web1_app.tgz'']"
  by (simp add: local_store_def wanted_def
      slice_def path_join_def re_match_digits_def is_digit_def parse_archive_date_def py_int_def
      strip_def is_space_def digit_val_def mk_date_def valid_date_def MINYEAR_def MAXYEAR_def
      days_in_month_def DAYS_IN_MONTH_def is_leap_def)

section \<open>Properties of the target selection\<close>

lemma takeWhile_sep: "c \<notin> set p1 \<Longrightarrow> takeWhile (\<lambda>x. x \<noteq> c) (p1 @ c # p2) = p1"
  by (induction p1) auto
lemma dropWhile_sep: "c \<notin> set p1 \<Longrightarrow> dropWhile (\<lambda>x. x \<noteq> c) (p1 @ c # p2) = c # p2"
  by (induction p1) auto
lemma split_max_one_sep:
  "c \<notin> set p1 \<Longrightarrow> c \<notin> set p2 \<Longrightarrow> split_max c 2 (p1 @ c # p2) = [p1, p2]"
  by (simp add: numeral_2_eq_2 takeWhile_sep dropWhile_sep)

text \<open>
  C7 (amended). For an identifier \<^verbatim>\<open>pattern1:pattern2\<close> with one colon, the selector returns,
  in the order of the registry, exactly the actions for which \<^verbatim>\<open>pattern1\<close> matches the server
  name or the prefix and \<^verbatim>\<open>pattern2\<close> matches the name, the full name, the remote folder
  (file actions) or the database name or engine tag (database actions), when there is such
  an action. When there is none it raises \<^verbatim>\<open>RuntimeError\<close> with the text
  \<^verbatim>\<open>Unknown target\<close> and the identifier.
\<close>

theorem glob_target_colon:
  assumes "CHR '':'' \<notin> set pattern1" and "CHR '':'' \<notin> set pattern2"
  shows "glob_target fnmatch actions (pattern1 @ '':'' @ pattern2) =
     (let selected = filter (\<lambda>a.
          (fnmatch (server_name a) pattern1 \<or> fnmatch (prefix a) pattern1)
          \<and> (fnmatch (name a) pattern2 \<or> fnmatch (full_name a) pattern2
             \<or> (case kind a of
                   FileAction remote_folder exclusions \<Rightarrow> fnmatch remote_folder pattern2
                 | DbAction c db_user database db_port \<Rightarrow>
                     fnmatch database pattern2 \<or> fnmatch (db_type c) pattern2))) actions
      in if selected = [] then Inl (RuntimeError (''Unknown target '' @ pattern1 @ '':'' @ pattern2))
         else Inr selected)"
proof -
  have sel: "select_with_colon fnmatch pattern1 pattern2 = (\<lambda>a.
          (fnmatch (server_name a) pattern1 \<or> fnmatch (prefix a) pattern1)
          \<and> (fnmatch (name a) pattern2 \<or> fnmatch (full_name a) pattern2
             \<or> (case kind a of
                   FileAction remote_folder exclusions \<Rightarrow> fnmatch remote_folder pattern2
                 | DbAction c db_user database db_port \<Rightarrow>
                     fnmatch database pattern2 \<or> fnmatch (db_type c) pattern2)))"
    by (auto simp: select_with_colon_def fun_eq_iff split: action_kind.splits)
  show ?thesis
    using assms
    by (simp add: glob_target_def split_max_one_sep sel Let_def)
qed

theorem glob_target_colon_witness:
  "CHR '':'' \<notin> set ''web*'' \<and> CHR '':'' \<notin> set ''db''
   \<and> glob_target fnmatch_plain [web1_db, api1_db] (''web*'' @ '':'' @ ''db'') = Inr [web1_db]"
proof -
  have h1: "CHR '':'' \<notin> set ''web*''" and h2: "CHR '':'' \<notin> set ''db''" by simp_all
  from glob_target_colon [OF h1 h2, of fnmatch_plain "[web1_db, api1_db]"]
  show ?thesis
    by (simp add: web1_db_def api1_db_def full_name_def)
qed

text \<open>
  The claim as stated fails where no action qualifies: the selector does not return the
  empty selection, it raises.
\<close>

theorem glob_target_no_match_counterexample:
  "glob_target fnmatch_plain [web1_db, api1_db] ''ftp*:db''
     = Inl (RuntimeError ''Unknown target ftp*:db'')"
  by (simp add: glob_target_def numeral_2_eq_2 select_with_colon_def web1_db_def api1_db_def
      full_name_def)

text \<open>
  With a second colon \<^verbatim>\<open>identifier.split(":", 2)\<close> yields three parts and the assignment to two
  names raises \<^verbatim>\<open>ValueError\<close>.
\<close>

lemma glob_target_two_colons:
  "glob_target fnmatch_plain [web1_db, api1_db] ''web1:d:b'' = Inl ValueError"
  by (simp add: glob_target_def numeral_2_eq_2)

end
